theory Spec2Isabelle
  imports Complex_Main "HOL-Library.Word"
begin

section \<open>Single-precision values\<close>

text \<open>
  The kernels compute on \<^verbatim>\<open>float\<close>. A value is a real number or one of the three IEEE
  special values. The result of an operation on finite values is the exact result rounded
  to binary32 by \<open>round32\<close> (round to nearest, ties to even, with subnormal numbers): a
  small result underflows to zero and a large one overflows to an infinity. The two zeros
  are not distinguished. Each operation of the source is rounded on its own (a multiply and
  an add are not fused).
\<close>

datatype fval = Fin real | PInf | NInf | NaN

text \<open>Rounding of a real number to the nearest integer, ties to the even one.\<close>

definition round_even :: "real \<Rightarrow> int" where
  "round_even x =
     (let f = \<lfloor>x\<rfloor>; d = x - of_int f
      in if d < 1 / 2 then f else if 1 / 2 < d then f + 1 else if even f then f else f + 1)"

text \<open>
  \<open>float_exponent n e a\<close> is the least exponent \<open>e'\<close> from \<open>e\<close> on with \<open>a < 2 ^ (e' + 1)\<close>,
  searched over \<open>n\<close> steps. From \<open>- 126\<close> over 254 steps it is the binary32 exponent of
  \<open>a\<close>; the spacing of the binary32 numbers around \<open>a\<close> is \<open>float_ulp a\<close>, and the least
  positive binary32 number is \<open>float_denorm_min\<close>.
\<close>

fun float_exponent :: "nat \<Rightarrow> int \<Rightarrow> real \<Rightarrow> int" where
  "float_exponent 0 e a = e"
| "float_exponent (Suc n) e a = (if a < 2 powi (e + 1) then e else float_exponent n (e + 1) a)"

definition float_denorm_min :: real where
  "float_denorm_min = 2 powi (- 149)"

definition float_ulp :: "real \<Rightarrow> real" where
  "float_ulp a = 2 powi (float_exponent 254 (- 126) a - 23)"

definition round32 :: "real \<Rightarrow> fval" where
  "round32 r =
     (let a = \<bar>r\<bar>; v = of_int (round_even (a / float_ulp a)) * float_ulp a
      in if 2 ^ 128 \<le> v then (if 0 < r then PInf else NInf)
         else Fin (if 0 \<le> r then v else - v))"

text \<open>A literal such as \<^verbatim>\<open>0.176765f\<close> is the binary32 number nearest to its decimal.\<close>

definition float_literal :: "real \<Rightarrow> real" where
  "float_literal r = (case round32 r of Fin v \<Rightarrow> v | _ \<Rightarrow> 0)"

fun fneg :: "fval \<Rightarrow> fval" where
  "fneg (Fin a) = Fin (- a)"
| "fneg PInf = NInf"
| "fneg NInf = PInf"
| "fneg NaN = NaN"

fun fadd :: "fval \<Rightarrow> fval \<Rightarrow> fval" where
  "fadd (Fin a) (Fin b) = round32 (a + b)"
| "fadd NaN _ = NaN"
| "fadd _ NaN = NaN"
| "fadd PInf NInf = NaN"
| "fadd NInf PInf = NaN"
| "fadd PInf _ = PInf"
| "fadd NInf _ = NInf"
| "fadd _ PInf = PInf"
| "fadd _ NInf = NInf"

definition fsub :: "fval \<Rightarrow> fval \<Rightarrow> fval" where
  "fsub a b = fadd a (fneg b)"

text \<open>The sign of a value: \<open>1\<close>, \<open>0\<close> or \<open>- 1\<close>; \<open>NaN\<close> has none.\<close>

fun fsign :: "fval \<Rightarrow> int" where
  "fsign (Fin a) = (if a > 0 then 1 else if a < 0 then - 1 else 0)"
| "fsign PInf = 1"
| "fsign NInf = - 1"
| "fsign NaN = 0"

definition signed_inf :: "int \<Rightarrow> fval" where
  "signed_inf s = (if s > 0 then PInf else if s < 0 then NInf else NaN)"

fun fmul :: "fval \<Rightarrow> fval \<Rightarrow> fval" where
  "fmul (Fin a) (Fin b) = round32 (a * b)"
| "fmul NaN _ = NaN"
| "fmul _ NaN = NaN"
| "fmul a b = signed_inf (fsign a * fsign b)"

text \<open>
  Division: a finite value divided by zero is an infinity of the sign of the numerator,
  and \<open>0 / 0\<close> is \<open>NaN\<close>.
\<close>

fun fdiv :: "fval \<Rightarrow> fval \<Rightarrow> fval" where
  "fdiv (Fin a) (Fin b) = (if b = 0 then signed_inf (fsign (Fin a)) else round32 (a / b))"
| "fdiv NaN _ = NaN"
| "fdiv _ NaN = NaN"
| "fdiv (Fin a) _ = Fin 0"
| "fdiv a (Fin b) = signed_inf (fsign a * (if b < 0 then - 1 else 1))"
| "fdiv _ _ = NaN"

fun fabs :: "fval \<Rightarrow> fval" where
  "fabs (Fin a) = Fin \<bar>a\<bar>"
| "fabs PInf = PInf"
| "fabs NInf = PInf"
| "fabs NaN = NaN"

text \<open>Comparisons: every comparison with \<open>NaN\<close> is false.\<close>

fun fgt :: "fval \<Rightarrow> fval \<Rightarrow> bool" where
  "fgt NaN _ = False"
| "fgt _ NaN = False"
| "fgt (Fin a) (Fin b) = (a > b)"
| "fgt PInf PInf = False"
| "fgt PInf _ = True"
| "fgt NInf _ = False"
| "fgt (Fin a) NInf = True"
| "fgt (Fin a) PInf = False"

fun fle :: "fval \<Rightarrow> fval \<Rightarrow> bool" where
  "fle NaN _ = False"
| "fle _ NaN = False"
| "fle a b = (\<not> fgt a b)"

definition feq :: "fval \<Rightarrow> fval \<Rightarrow> bool" where
  "feq a b = (a \<noteq> NaN \<and> a = b)"

text \<open>Conversion of a \<^verbatim>\<open>bool\<close> to \<^verbatim>\<open>float\<close>: \<open>1\<close> or \<open>0\<close>.\<close>

definition fbool :: "bool \<Rightarrow> fval" where
  "fbool b = Fin (if b then 1 else 0)"

section \<open>Hole classification\<close>

text \<open>
  A texture is read at integer pixel coordinates: \<open>tex x y\<close> is
  \<^verbatim>\<open>tex2D<float>(tex, x, y)\<close>.
\<close>

type_synonym texture = "int \<Rightarrow> int \<Rightarrow> fval"

text \<open>
  \<^verbatim>\<open>ConvolutionInpaintingInitializeVariablesKernel\<close>: the value written to the working
  buffer, and the test that marks the thread active (counted as a hole of its tile).
\<close>

definition depth_input :: "fval \<Rightarrow> texture \<Rightarrow> int \<Rightarrow> int \<Rightarrow> fval" where
  "depth_input depth_input_scaling_factor depth_map_input x y =
     fmul depth_input_scaling_factor (depth_map_input x y)"

definition thread_is_active :: "fval \<Rightarrow> texture \<Rightarrow> int \<Rightarrow> int \<Rightarrow> bool" where
  "thread_is_active depth_input_scaling_factor depth_map_input x y =
     feq (depth_input depth_input_scaling_factor depth_map_input x y) (Fin 0)"

text \<open>
  \<^verbatim>\<open>ConvolutionInpaintingKernel\<close> and \<^verbatim>\<open>ConvolutionInpaintingKernelWithWeighting\<close>
  compute the same test, on the unscaled input texture.
\<close>

definition kIsPixelToInpaint :: "texture \<Rightarrow> int \<Rightarrow> int \<Rightarrow> bool" where
  "kIsPixelToInpaint depth_map_input x y = fle (depth_map_input x y) (Fin 0)"

section \<open>Integer conversions and memory writes\<close>

text \<open>
  \<^verbatim>\<open>unsigned int\<close> arithmetic wraps modulo \<open>2 ^ 32\<close>; \<open>u32\<close> converts to
  \<^verbatim>\<open>unsigned int\<close> and \<open>s32\<close> back to \<^verbatim>\<open>int\<close>.
\<close>

definition u32 :: "int \<Rightarrow> int" where
  "u32 i = i mod 4294967296"

definition s32 :: "int \<Rightarrow> int" where
  "s32 i = (let m = i mod 4294967296 in if m < 2147483648 then m else m - 4294967296)"

text \<open>
  The writes of the threads of a block to a buffer, applied in order. A buffer of pixels is
  addressed as \<^verbatim>\<open>buffer(y, x)\<close>, that is by the pair \<open>(y, x)\<close>.
\<close>

fun apply_writes :: "('k \<times> 'v) list \<Rightarrow> ('k \<Rightarrow> 'v) \<Rightarrow> ('k \<Rightarrow> 'v)" where
  "apply_writes [] m = m"
| "apply_writes ((k, v) # ws) m = apply_writes ws (m(k := v))"

type_synonym thread = "int \<times> int"

text \<open>The threads \<open>(threadIdx.x, threadIdx.y)\<close> of a block, and the blocks of a 2-D grid.\<close>

definition block_threads :: "int \<Rightarrow> int \<Rightarrow> thread list" where
  "block_threads block_size_x block_size_y =
     concat (map (\<lambda>ty. map (\<lambda>tx. (tx, ty)) [0..block_size_x - 1]) [0..block_size_y - 1])"

definition grid_blocks :: "int \<Rightarrow> int \<Rightarrow> (int \<times> int) list" where
  "grid_blocks grid_dim_x grid_dim_y =
     concat (map (\<lambda>by. map (\<lambda>bx. (bx, by)) [0..grid_dim_x - 1]) [0..grid_dim_y - 1])"

definition kIterationsPerKernelCall :: int where
  "kIterationsPerKernelCall = 4"

definition kBlockWidth :: int where
  "kBlockWidth = 32"

definition kBlockHeight :: int where
  "kBlockHeight = 32"

text \<open>The memory of the device that an inpainting call works on.\<close>

record device =
  depth_map_output :: "int \<times> int \<Rightarrow> fval"
  block_coordinates :: "nat \<Rightarrow> 16 word"
  max_change :: "nat \<Rightarrow> 8 word"

section \<open>The initialisation kernel\<close>

text \<open>
  One thread of \<^verbatim>\<open>ConvolutionInpaintingInitializeVariablesKernel\<close>: its write to the
  working buffer (none when \<^verbatim>\<open>kOutput\<close> is false) and its \<^verbatim>\<open>thread_is_active\<close>.
  The coordinates \<open>x\<close>, \<open>y\<close> are \<^verbatim>\<open>unsigned int\<close>.
\<close>

definition init_thread ::
  "int \<Rightarrow> int \<Rightarrow> fval \<Rightarrow> texture \<Rightarrow> int \<Rightarrow> int \<Rightarrow> int \<times> int \<Rightarrow> thread
     \<Rightarrow> ((int \<times> int) \<times> fval) list \<times> bool" where
  "init_thread block_size_x block_size_y depth_input_scaling_factor depth_map_input w h blk t =
     (let (bx, by) = blk; (tx, ty) = t;
          kBlockOutputSizeX = block_size_x - 2 * kIterationsPerKernelCall;
          kBlockOutputSizeY = block_size_y - 2 * kIterationsPerKernelCall;
          x = u32 (bx * kBlockOutputSizeX + tx - kIterationsPerKernelCall);
          y = u32 (by * kBlockOutputSizeY + ty - kIterationsPerKernelCall);
          kOutput = (tx \<ge> kIterationsPerKernelCall \<and> ty \<ge> kIterationsPerKernelCall \<and>
                     tx < block_size_x - kIterationsPerKernelCall \<and>
                     ty < block_size_y - kIterationsPerKernelCall \<and>
                     x < u32 w \<and> y < u32 h)
      in if kOutput
         then ([((y, x), depth_input depth_input_scaling_factor depth_map_input x y)],
               thread_is_active depth_input_scaling_factor depth_map_input x y)
         else ([], False))"

text \<open>
  One block: the threads' writes, and the block-wide sum of the active threads, stored
  (as \<^verbatim>\<open>uint16_t\<close>) at the block's entry of \<^verbatim>\<open>block_coordinates\<close>.
\<close>

definition init_block ::
  "int \<Rightarrow> int \<Rightarrow> int \<Rightarrow> fval \<Rightarrow> texture \<Rightarrow> int \<Rightarrow> int \<Rightarrow> int \<times> int \<Rightarrow> device \<Rightarrow> device" where
  "init_block block_size_x block_size_y grid_dim_x depth_input_scaling_factor depth_map_input w h
     blk dev =
     (let results = map (init_thread block_size_x block_size_y depth_input_scaling_factor
                           depth_map_input w h blk)
                      (block_threads block_size_x block_size_y);
          num_active_threads = sum_list (map (\<lambda>r. if snd r then (1::int) else 0) results)
      in dev\<lparr>depth_map_output := apply_writes (concat (map fst results)) (depth_map_output dev),
             block_coordinates := (block_coordinates dev)
               (nat (fst blk + snd blk * grid_dim_x) := word_of_int num_active_threads)\<rparr>)"

definition ConvolutionInpaintingInitializeVariablesKernel ::
  "int \<Rightarrow> int \<Rightarrow> int \<times> int \<Rightarrow> int \<Rightarrow> fval \<Rightarrow> texture \<Rightarrow> int \<Rightarrow> int \<Rightarrow> device \<Rightarrow> device" where
  "ConvolutionInpaintingInitializeVariablesKernel block_size_x block_size_y grid_dim grid_dim_x
     depth_input_scaling_factor depth_map_input w h dev =
     fold (init_block block_size_x block_size_y grid_dim_x depth_input_scaling_factor
             depth_map_input w h)
       (grid_blocks (fst grid_dim) (snd grid_dim)) dev"

section \<open>Host-side compaction of the active tiles\<close>

record compaction =
  active_block_count :: nat
  pixel_to_inpaint_count :: "32 word"
  block_coordinates_cpu :: "nat \<Rightarrow> 16 word"

text \<open>
  The body of the double loop over the tile grid: \<open>x\<close> and \<open>y\<close> are \<^verbatim>\<open>size_t\<close>, the
  products are truncated to \<^verbatim>\<open>uint16_t\<close> when stored, the counter is \<^verbatim>\<open>uint32_t\<close>.
\<close>

definition compact_step ::
  "(nat \<Rightarrow> 16 word) \<Rightarrow> nat \<Rightarrow> int \<Rightarrow> int \<Rightarrow> nat \<times> nat \<Rightarrow> compaction \<Rightarrow> compaction" where
  "compact_step block_activity grid_dim_x kBlockOutputSizeX kBlockOutputSizeY p c =
     (let (x, y) = p in
      if block_activity (x + y * grid_dim_x) > 0
      then c\<lparr>block_coordinates_cpu := (block_coordinates_cpu c)
                 (2 * active_block_count c + 0 := word_of_int (int x * kBlockOutputSizeX),
                  2 * active_block_count c + 1 := word_of_int (int y * kBlockOutputSizeY)),
             active_block_count := active_block_count c + 1,
             pixel_to_inpaint_count :=
               pixel_to_inpaint_count c + ucast (block_activity (x + y * grid_dim_x))\<rparr>
      else c)"

definition tile_scan :: "nat \<Rightarrow> nat \<Rightarrow> (nat \<times> nat) list" where
  "tile_scan grid_dim_x grid_dim_y =
     concat (map (\<lambda>y. map (\<lambda>x. (x, y)) [0..<grid_dim_x]) [0..<grid_dim_y])"

definition compact_blocks ::
  "(nat \<Rightarrow> 16 word) \<Rightarrow> nat \<Rightarrow> nat \<Rightarrow> int \<Rightarrow> int \<Rightarrow> (nat \<Rightarrow> 16 word) \<Rightarrow> compaction" where
  "compact_blocks block_activity grid_dim_x grid_dim_y kBlockOutputSizeX kBlockOutputSizeY cpu0 =
     fold (compact_step block_activity grid_dim_x kBlockOutputSizeX kBlockOutputSizeY)
       (tile_scan grid_dim_x grid_dim_y)
       \<lparr>active_block_count = 0, pixel_to_inpaint_count = 0, block_coordinates_cpu = cpu0\<rparr>"

text \<open>The compacted list of tile origins: the first \<open>active_block_count\<close> pairs.\<close>

definition active_tiles :: "nat \<Rightarrow> (nat \<Rightarrow> 16 word) \<Rightarrow> (16 word \<times> 16 word) list" where
  "active_tiles n coords = map (\<lambda>j. (coords (2 * j + 0), coords (2 * j + 1))) [0..<n]"

section \<open>The diffusion kernel without weighting\<close>

text \<open>
  In \<^verbatim>\<open>ConvolutionInpaintingKernel\<close> the operand
  \<^verbatim>\<open>block_coordinates(0, ...) + threadIdx.x - kIterationsPerKernelCall\<close> has type
  \<^verbatim>\<open>unsigned int\<close>, so the \<^verbatim>\<open>min\<close> and \<^verbatim>\<open>max\<close> of an \<^verbatim>\<open>int\<close> and an
  \<^verbatim>\<open>unsigned int\<close> compare as unsigned and the result is converted to \<^verbatim>\<open>int\<close>.
  \<open>origin\<close> is the tile origin read from \<^verbatim>\<open>block_coordinates\<close>.
\<close>

definition clamp_unsigned :: "int \<Rightarrow> int \<Rightarrow> int \<Rightarrow> int" where
  "clamp_unsigned sz origin tid =
     s32 (max (u32 0) (min (u32 (sz - 1)) (u32 (origin + tid - kIterationsPerKernelCall))))"

definition pixel_u :: "int \<Rightarrow> int \<Rightarrow> int \<times> int \<Rightarrow> thread \<Rightarrow> int \<times> int" where
  "pixel_u w h origin t =
     (clamp_unsigned w (fst origin) (fst t), clamp_unsigned h (snd origin) (snd t))"

definition kOutput_u :: "int \<Rightarrow> int \<Rightarrow> int \<Rightarrow> int \<Rightarrow> int \<times> int \<Rightarrow> thread \<Rightarrow> bool" where
  "kOutput_u block_size_x block_size_y w h origin t =
     (fst t \<ge> kIterationsPerKernelCall \<and> snd t \<ge> kIterationsPerKernelCall \<and>
      fst t < block_size_x - kIterationsPerKernelCall \<and>
      snd t < block_size_y - kIterationsPerKernelCall \<and>
      u32 (fst origin + fst t - kIterationsPerKernelCall) < u32 w \<and>
      u32 (snd origin + snd t - kIterationsPerKernelCall) < u32 h)"

definition shared_mem_index :: "int \<Rightarrow> thread \<Rightarrow> int" where
  "shared_mem_index block_size_x t = fst t + block_size_x * snd t"

text \<open>The threads that have a full ring of neighbours in shared memory.\<close>

definition interior :: "int \<Rightarrow> int \<Rightarrow> thread \<Rightarrow> bool" where
  "interior block_size_x block_size_y t =
     (fst t > 0 \<and> snd t > 0 \<and> fst t < block_size_x - 1 \<and> snd t < block_size_y - 1)"

text \<open>The kernel weights \<^verbatim>\<open>0.073235f\<close> and \<^verbatim>\<open>0.176765f\<close>.\<close>

definition w_diagonal :: real where
  "w_diagonal = float_literal (73235 / 1000000)"

definition w_axis :: real where
  "w_axis = float_literal (176765 / 1000000)"

text \<open>
  One neighbour of the accumulation: \<open>in_image\<close> is the bounds test of the source line,
  \<open>k\<close> the kernel weight and \<open>j\<close> the neighbour's index in shared memory.
\<close>

definition neighbour_u ::
  "(int \<Rightarrow> fval) \<Rightarrow> bool \<times> real \<times> int \<Rightarrow> fval \<times> fval \<Rightarrow> fval \<times> fval" where
  "neighbour_u depth_shared n acc =
     (let (in_image, k, j) = n; (result, weight) = acc;
          temp_depth = depth_shared j;
          pixel_weight = fmul (fbool (in_image \<and> fgt temp_depth (Fin 0))) (Fin k)
      in (fadd result (fmul pixel_weight temp_depth), fadd weight pixel_weight))"

definition neighbours_u :: "int \<Rightarrow> int \<Rightarrow> int \<Rightarrow> int \<Rightarrow> int \<Rightarrow> int \<Rightarrow> (bool \<times> real \<times> int) list" where
  "neighbours_u block_size_x w h x y i =
     [(y > 0 \<and> x > 0, w_diagonal, i - 1 - block_size_x),
      (y > 0, w_axis, i - block_size_x),
      (y > 0 \<and> x < w - 1, w_diagonal, i + 1 - block_size_x),
      (x > 0, w_axis, i - 1),
      (x < w - 1, w_axis, i + 1),
      (y < h - 1 \<and> x > 0, w_diagonal, i - 1 + block_size_x),
      (y < h - 1, w_axis, i + block_size_x),
      (y < h - 1 \<and> x < w - 1, w_diagonal, i + 1 + block_size_x)]"

text \<open>The pair \<open>(result, weight)\<close> of a thread in one sub-iteration.\<close>

definition accumulate_u ::
  "int \<Rightarrow> int \<Rightarrow> texture \<Rightarrow> int \<Rightarrow> int \<Rightarrow> int \<times> int \<Rightarrow> (int \<Rightarrow> fval) \<Rightarrow> thread \<Rightarrow> fval \<times> fval" where
  "accumulate_u block_size_x block_size_y depth_map_input w h origin depth_shared t =
     (let (x, y) = pixel_u w h origin t in
      if kIsPixelToInpaint depth_map_input x y \<and> interior block_size_x block_size_y t
      then fold (neighbour_u depth_shared)
             (neighbours_u block_size_x w h x y (shared_mem_index block_size_x t)) (Fin 0, Fin 0)
      else (Fin 0, Fin 0))"

definition new_depth_u ::
  "int \<Rightarrow> int \<Rightarrow> texture \<Rightarrow> int \<Rightarrow> int \<Rightarrow> int \<times> int \<Rightarrow> (int \<Rightarrow> fval) \<Rightarrow> thread \<Rightarrow> fval" where
  "new_depth_u block_size_x block_size_y depth_map_input w h origin depth_shared t =
     (let (result, weight) =
            accumulate_u block_size_x block_size_y depth_map_input w h origin depth_shared t
      in fdiv result weight)"

text \<open>The convergence test of a thread in sub-iteration \<open>i\<close>: the division has no guard.\<close>

definition change_u ::
  "int \<Rightarrow> int \<Rightarrow> bool \<Rightarrow> texture \<Rightarrow> int \<Rightarrow> int \<Rightarrow> int \<times> int \<Rightarrow> int \<Rightarrow> (int \<Rightarrow> fval) \<Rightarrow> thread \<Rightarrow> fval" where
  "change_u block_size_x block_size_y check_convergence depth_map_input w h origin i depth_shared t =
     (let (x, y) = pixel_u w h origin t;
          new_depth = new_depth_u block_size_x block_size_y depth_map_input w h origin depth_shared t;
          old = depth_shared (shared_mem_index block_size_x t)
      in if check_convergence \<and> kOutput_u block_size_x block_size_y w h origin t \<and>
            kIsPixelToInpaint depth_map_input x y \<and> i = kIterationsPerKernelCall - 1
         then fabs (fdiv (fsub new_depth old) old) else Fin 0)"

text \<open>
  The block-wide sum of the threads whose change exceeds the threshold, and the flag
  written to \<^verbatim>\<open>max_change\<close>.
\<close>

definition active_pixels :: "fval \<Rightarrow> fval list \<Rightarrow> int" where
  "active_pixels threshold changes =
     sum_list (map (\<lambda>change. if fgt change threshold then 1 else 0) changes)"

definition change_flag :: "fval \<Rightarrow> fval list \<Rightarrow> 8 word" where
  "change_flag threshold changes = (if active_pixels threshold changes > 0 then 1 else 0)"

text \<open>
  The write of a thread to its own cell of shared memory at the end of a sub-iteration.
\<close>

definition shared_write_u ::
  "int \<Rightarrow> int \<Rightarrow> texture \<Rightarrow> int \<Rightarrow> int \<Rightarrow> int \<times> int \<Rightarrow> (int \<Rightarrow> fval) \<Rightarrow> thread \<Rightarrow> (int \<times> fval) list" where
  "shared_write_u block_size_x block_size_y depth_map_input w h origin depth_shared t =
     (let (x, y) = pixel_u w h origin t;
          (result, weight) =
            accumulate_u block_size_x block_size_y depth_map_input w h origin depth_shared t
      in if kIsPixelToInpaint depth_map_input x y \<and> fgt weight (Fin 0)
         then [(shared_mem_index block_size_x t, fdiv result weight)] else [])"

text \<open>
  One sub-iteration of a block. All threads read shared memory before the barrier and
  write their own cell after it. With \<open>check_convergence\<close> the flag is written in every
  sub-iteration; \<open>flags\<close> is the \<^verbatim>\<open>max_change\<close> buffer and \<open>b\<close> is \<^verbatim>\<open>blockIdx.x\<close>.
\<close>

definition sub_iteration_u ::
  "int \<Rightarrow> int \<Rightarrow> bool \<Rightarrow> texture \<Rightarrow> fval \<Rightarrow> int \<Rightarrow> int \<Rightarrow> int \<times> int \<Rightarrow> nat \<Rightarrow> int
     \<Rightarrow> (int \<Rightarrow> fval) \<times> (nat \<Rightarrow> 8 word) \<Rightarrow> (int \<Rightarrow> fval) \<times> (nat \<Rightarrow> 8 word)" where
  "sub_iteration_u block_size_x block_size_y check_convergence depth_map_input threshold w h origin
     b i st =
     (let (depth_shared, flags) = st;
          threads = block_threads block_size_x block_size_y;
          changes = map (change_u block_size_x block_size_y check_convergence depth_map_input
                           w h origin i depth_shared) threads;
          flags' = (if check_convergence then flags(b := change_flag threshold changes) else flags);
          writes = concat (map (shared_write_u block_size_x block_size_y depth_map_input
                                  w h origin depth_shared) threads)
      in (apply_writes writes depth_shared, flags'))"

text \<open>The tile origin of block \<open>b\<close>, read from \<^verbatim>\<open>block_coordinates\<close>.\<close>

definition tile_origin :: "(nat \<Rightarrow> 16 word) \<Rightarrow> nat \<Rightarrow> int \<times> int" where
  "tile_origin coords b = (uint (coords (2 * b + 0)), uint (coords (2 * b + 1)))"

text \<open>
  The load of shared memory. Every cell is written by its thread; the content before the
  load is not specified by the program and is taken as zero.
\<close>

definition load_shared ::
  "int \<Rightarrow> (thread \<Rightarrow> int \<times> int) \<Rightarrow> (int \<times> int \<Rightarrow> fval) \<Rightarrow> thread list \<Rightarrow> int \<Rightarrow> fval" where
  "load_shared block_size_x pixel buffer threads =
     apply_writes
       (map (\<lambda>t. (shared_mem_index block_size_x t, buffer (snd (pixel t), fst (pixel t)))) threads)
       (\<lambda>_. Fin 0)"

definition output_write_u ::
  "int \<Rightarrow> int \<Rightarrow> texture \<Rightarrow> int \<Rightarrow> int \<Rightarrow> int \<times> int \<Rightarrow> (int \<Rightarrow> fval) \<Rightarrow> thread
     \<Rightarrow> ((int \<times> int) \<times> fval) list" where
  "output_write_u block_size_x block_size_y depth_map_input w h origin depth_shared t =
     (let (x, y) = pixel_u w h origin t in
      if kOutput_u block_size_x block_size_y w h origin t \<and> kIsPixelToInpaint depth_map_input x y
      then [((y, x), depth_shared (shared_mem_index block_size_x t))] else [])"

text \<open>The state of a block after its sub-iterations: shared memory and the flags.\<close>

definition block_iterations_u ::
  "int \<Rightarrow> int \<Rightarrow> bool \<Rightarrow> texture \<Rightarrow> fval \<Rightarrow> int \<Rightarrow> int \<Rightarrow> nat \<Rightarrow> device
     \<Rightarrow> (int \<Rightarrow> fval) \<times> (nat \<Rightarrow> 8 word)" where
  "block_iterations_u block_size_x block_size_y check_convergence depth_map_input threshold w h b dev =
     (let origin = tile_origin (block_coordinates dev) b;
          threads = block_threads block_size_x block_size_y
      in fold (sub_iteration_u block_size_x block_size_y check_convergence depth_map_input
                 threshold w h origin b)
           [0..kIterationsPerKernelCall - 1]
           (load_shared block_size_x (pixel_u w h origin) (depth_map_output dev) threads,
            max_change dev))"

definition block_u ::
  "int \<Rightarrow> int \<Rightarrow> bool \<Rightarrow> texture \<Rightarrow> fval \<Rightarrow> int \<Rightarrow> int \<Rightarrow> nat \<Rightarrow> device \<Rightarrow> device" where
  "block_u block_size_x block_size_y check_convergence depth_map_input threshold w h b dev =
     (let origin = tile_origin (block_coordinates dev) b;
          (depth_shared, flags) =
             block_iterations_u block_size_x block_size_y check_convergence depth_map_input
               threshold w h b dev
      in dev\<lparr>depth_map_output :=
               apply_writes
                 (concat (map (output_write_u block_size_x block_size_y depth_map_input
                                 w h origin depth_shared)
                            (block_threads block_size_x block_size_y)))
                 (depth_map_output dev),
             max_change := flags\<rparr>)"

text \<open>
  A launch over \<open>grid_dim_active\<close> blocks. The blocks of a launch are run one after the
  other, in the order of \<^verbatim>\<open>blockIdx.x\<close>.
\<close>

definition ConvolutionInpaintingKernel ::
  "int \<Rightarrow> int \<Rightarrow> bool \<Rightarrow> nat \<Rightarrow> texture \<Rightarrow> fval \<Rightarrow> int \<Rightarrow> int \<Rightarrow> device \<Rightarrow> device" where
  "ConvolutionInpaintingKernel block_size_x block_size_y check_convergence grid_dim_active
     depth_map_input threshold w h dev =
     fold (block_u block_size_x block_size_y check_convergence depth_map_input threshold w h)
       [0..<grid_dim_active] dev"

section \<open>The diffusion kernel with weighting\<close>

type_synonym gradient = "int \<Rightarrow> int \<Rightarrow> 8 word"

text \<open>\<^verbatim>\<open>constexpr float kSqrt2 = 1.4142135623731f\<close>.\<close>

definition kSqrt2 :: real where
  "kSqrt2 = float_literal (14142135623731 / 10000000000000)"

text \<open>
  In \<^verbatim>\<open>ConvolutionInpaintingKernelWithWeighting\<close> the raw coordinate is converted to
  \<^verbatim>\<open>int\<close> before it is clamped.
\<close>

definition raw_coordinate :: "int \<Rightarrow> int \<Rightarrow> int" where
  "raw_coordinate origin tid = s32 (origin + tid - kIterationsPerKernelCall)"

definition kInImage :: "int \<Rightarrow> int \<Rightarrow> int \<times> int \<Rightarrow> thread \<Rightarrow> bool" where
  "kInImage w h origin t =
     (let raw_x = raw_coordinate (fst origin) (fst t); raw_y = raw_coordinate (snd origin) (snd t)
      in raw_x \<ge> 0 \<and> raw_y \<ge> 0 \<and> raw_x < w \<and> raw_y < h)"

definition pixel_w :: "int \<Rightarrow> int \<Rightarrow> int \<times> int \<Rightarrow> thread \<Rightarrow> int \<times> int" where
  "pixel_w w h origin t =
     (max 0 (min (w - 1) (raw_coordinate (fst origin) (fst t))),
      max 0 (min (h - 1) (raw_coordinate (snd origin) (snd t))))"

definition kOutput_w :: "int \<Rightarrow> int \<Rightarrow> texture \<Rightarrow> int \<Rightarrow> int \<Rightarrow> int \<times> int \<Rightarrow> thread \<Rightarrow> bool" where
  "kOutput_w block_size_x block_size_y depth_map_input w h origin t =
     (let (x, y) = pixel_w w h origin t in
      fst t \<ge> kIterationsPerKernelCall \<and> snd t \<ge> kIterationsPerKernelCall \<and>
      fst t < block_size_x - kIterationsPerKernelCall \<and>
      snd t < block_size_y - kIterationsPerKernelCall \<and>
      kInImage w h origin t \<and> kIsPixelToInpaint depth_map_input x y)"

definition base_weight :: "gradient \<Rightarrow> int \<Rightarrow> int \<Rightarrow> int \<times> int \<Rightarrow> thread \<Rightarrow> fval" where
  "base_weight gradient_magnitude_div_sqrt2 w h origin t =
     (let (x, y) = pixel_w w h origin t in
      fdiv (fmul (fbool (kInImage w h origin t)) (Fin 1))
        (fadd (Fin 1)
           (fdiv (fmul (fmul (Fin 50) (Fin (real_of_int (uint (gradient_magnitude_div_sqrt2 x y)))))
                    (Fin kSqrt2))
              (Fin 255))))"

definition neighbour_w ::
  "(int \<Rightarrow> fval) \<Rightarrow> (int \<Rightarrow> fval) \<Rightarrow> real \<times> int \<Rightarrow> fval \<times> fval \<Rightarrow> fval \<times> fval" where
  "neighbour_w depth_shared weights_shared n acc =
     (let (k, j) = n; (new_depth, weight) = acc;
          pixel_weight = fmul (Fin k) (weights_shared j)
      in (fadd new_depth (fmul pixel_weight (depth_shared j)), fadd weight pixel_weight))"

definition neighbours_w :: "int \<Rightarrow> int \<Rightarrow> (real \<times> int) list" where
  "neighbours_w block_size_x i =
     [(w_diagonal, i - 1 - block_size_x),
      (w_axis, i - block_size_x),
      (w_diagonal, i + 1 - block_size_x),
      (w_axis, i - 1),
      (w_axis, i + 1),
      (w_diagonal, i - 1 + block_size_x),
      (w_axis, i + block_size_x),
      (w_diagonal, i + 1 + block_size_x)]"

text \<open>The pair \<open>(new_depth, weight)\<close> before the division, for an interior hole thread.\<close>

definition accumulate_w :: "int \<Rightarrow> (int \<Rightarrow> fval) \<Rightarrow> (int \<Rightarrow> fval) \<Rightarrow> thread \<Rightarrow> fval \<times> fval" where
  "accumulate_w block_size_x depth_shared weights_shared t =
     fold (neighbour_w depth_shared weights_shared)
       (neighbours_w block_size_x (shared_mem_index block_size_x t)) (Fin 0, Fin 0)"

definition new_depth_w ::
  "int \<Rightarrow> int \<Rightarrow> texture \<Rightarrow> int \<Rightarrow> int \<Rightarrow> int \<times> int \<Rightarrow> (int \<Rightarrow> fval) \<Rightarrow> (int \<Rightarrow> fval) \<Rightarrow> thread \<Rightarrow> fval" where
  "new_depth_w block_size_x block_size_y depth_map_input w h origin depth_shared weights_shared t =
     (let (x, y) = pixel_w w h origin t in
      if kIsPixelToInpaint depth_map_input x y \<and> interior block_size_x block_size_y t
      then (let (new_depth, weight) = accumulate_w block_size_x depth_shared weights_shared t
            in fdiv new_depth weight)
      else Fin 0)"

definition change_w ::
  "int \<Rightarrow> int \<Rightarrow> texture \<Rightarrow> int \<Rightarrow> int \<Rightarrow> int \<times> int \<Rightarrow> (int \<Rightarrow> fval) \<Rightarrow> (int \<Rightarrow> fval) \<Rightarrow> thread \<Rightarrow> fval" where
  "change_w block_size_x block_size_y depth_map_input w h origin depth_shared weights_shared t =
     (let new_depth = new_depth_w block_size_x block_size_y depth_map_input w h origin
                        depth_shared weights_shared t;
          old = depth_shared (shared_mem_index block_size_x t)
      in if kOutput_w block_size_x block_size_y depth_map_input w h origin t
         then fabs (fdiv (fsub new_depth old) old) else Fin 0)"

text \<open>
  The writes of a thread at the end of sub-iteration \<open>i\<close>: to its cell of
  \<^verbatim>\<open>depth_shared\<close>, and (except in the last sub-iteration) of \<^verbatim>\<open>weights_shared\<close>.
\<close>

definition shared_write_w ::
  "int \<Rightarrow> int \<Rightarrow> texture \<Rightarrow> int \<Rightarrow> int \<Rightarrow> int \<times> int \<Rightarrow> (int \<Rightarrow> fval) \<Rightarrow> (int \<Rightarrow> fval) \<Rightarrow> thread
     \<Rightarrow> (int \<times> fval) list" where
  "shared_write_w block_size_x block_size_y depth_map_input w h origin depth_shared weights_shared t =
     (let (x, y) = pixel_w w h origin t;
          new_depth = new_depth_w block_size_x block_size_y depth_map_input w h origin
                        depth_shared weights_shared t
      in if kIsPixelToInpaint depth_map_input x y \<and> fgt new_depth (Fin 0)
         then [(shared_mem_index block_size_x t, new_depth)] else [])"

definition weight_write_w ::
  "int \<Rightarrow> int \<Rightarrow> texture \<Rightarrow> gradient \<Rightarrow> int \<Rightarrow> int \<Rightarrow> int \<times> int \<Rightarrow> int \<Rightarrow> (int \<Rightarrow> fval) \<Rightarrow> (int \<Rightarrow> fval)
     \<Rightarrow> thread \<Rightarrow> (int \<times> fval) list" where
  "weight_write_w block_size_x block_size_y depth_map_input gradient_magnitude_div_sqrt2 w h origin i
     depth_shared weights_shared t =
     (let (x, y) = pixel_w w h origin t;
          new_depth = new_depth_w block_size_x block_size_y depth_map_input w h origin
                        depth_shared weights_shared t
      in if kIsPixelToInpaint depth_map_input x y \<and> fgt new_depth (Fin 0) \<and>
            i < kIterationsPerKernelCall - 1
         then [(shared_mem_index block_size_x t,
                fmul (base_weight gradient_magnitude_div_sqrt2 w h origin t)
                  (fbool (fgt new_depth (Fin 0))))]
         else [])"

definition sub_iteration_w ::
  "int \<Rightarrow> int \<Rightarrow> bool \<Rightarrow> texture \<Rightarrow> gradient \<Rightarrow> fval \<Rightarrow> int \<Rightarrow> int \<Rightarrow> int \<times> int \<Rightarrow> nat \<Rightarrow> int
     \<Rightarrow> (int \<Rightarrow> fval) \<times> (int \<Rightarrow> fval) \<times> (nat \<Rightarrow> 8 word)
     \<Rightarrow> (int \<Rightarrow> fval) \<times> (int \<Rightarrow> fval) \<times> (nat \<Rightarrow> 8 word)" where
  "sub_iteration_w block_size_x block_size_y check_convergence depth_map_input
     gradient_magnitude_div_sqrt2 threshold w h origin b i st =
     (let (depth_shared, weights_shared, flags) = st;
          threads = block_threads block_size_x block_size_y;
          changes = map (change_w block_size_x block_size_y depth_map_input w h origin
                           depth_shared weights_shared) threads;
          flags' = (if check_convergence \<and> i = kIterationsPerKernelCall - 1
                    then flags(b := change_flag threshold changes) else flags);
          depth_writes = concat (map (shared_write_w block_size_x block_size_y depth_map_input
                                        w h origin depth_shared weights_shared) threads);
          weight_writes = concat (map (weight_write_w block_size_x block_size_y depth_map_input
                                         gradient_magnitude_div_sqrt2 w h origin i
                                         depth_shared weights_shared) threads)
      in (apply_writes depth_writes depth_shared, apply_writes weight_writes weights_shared, flags'))"

text \<open>
  The load of \<^verbatim>\<open>weights_shared\<close>: each thread reads back the cell of
  \<^verbatim>\<open>depth_shared\<close> that it has just written.
\<close>

definition load_weights ::
  "int \<Rightarrow> gradient \<Rightarrow> int \<Rightarrow> int \<Rightarrow> int \<times> int \<Rightarrow> (int \<times> int \<Rightarrow> fval) \<Rightarrow> thread list \<Rightarrow> int \<Rightarrow> fval" where
  "load_weights block_size_x gradient_magnitude_div_sqrt2 w h origin buffer threads =
     apply_writes
       (map (\<lambda>t. (shared_mem_index block_size_x t,
                   fmul (base_weight gradient_magnitude_div_sqrt2 w h origin t)
                     (fbool (fgt (buffer (snd (pixel_w w h origin t), fst (pixel_w w h origin t)))
                               (Fin 0)))))
          threads)
       (\<lambda>_. Fin 0)"

definition output_write_w ::
  "int \<Rightarrow> int \<Rightarrow> texture \<Rightarrow> int \<Rightarrow> int \<Rightarrow> int \<times> int \<Rightarrow> (int \<Rightarrow> fval) \<Rightarrow> thread
     \<Rightarrow> ((int \<times> int) \<times> fval) list" where
  "output_write_w block_size_x block_size_y depth_map_input w h origin depth_shared t =
     (let (x, y) = pixel_w w h origin t in
      if kOutput_w block_size_x block_size_y depth_map_input w h origin t
      then [((y, x), depth_shared (shared_mem_index block_size_x t))] else [])"

definition block_iterations_w ::
  "int \<Rightarrow> int \<Rightarrow> bool \<Rightarrow> texture \<Rightarrow> gradient \<Rightarrow> fval \<Rightarrow> int \<Rightarrow> int \<Rightarrow> nat \<Rightarrow> device
     \<Rightarrow> (int \<Rightarrow> fval) \<times> (int \<Rightarrow> fval) \<times> (nat \<Rightarrow> 8 word)" where
  "block_iterations_w block_size_x block_size_y check_convergence depth_map_input
     gradient_magnitude_div_sqrt2 threshold w h b dev =
     (let origin = tile_origin (block_coordinates dev) b;
          threads = block_threads block_size_x block_size_y
      in fold (sub_iteration_w block_size_x block_size_y check_convergence depth_map_input
                 gradient_magnitude_div_sqrt2 threshold w h origin b)
           [0..kIterationsPerKernelCall - 1]
           (load_shared block_size_x (pixel_w w h origin) (depth_map_output dev) threads,
            load_weights block_size_x gradient_magnitude_div_sqrt2 w h origin
              (depth_map_output dev) threads,
            max_change dev))"

definition block_w ::
  "int \<Rightarrow> int \<Rightarrow> bool \<Rightarrow> texture \<Rightarrow> gradient \<Rightarrow> fval \<Rightarrow> int \<Rightarrow> int \<Rightarrow> nat \<Rightarrow> device \<Rightarrow> device" where
  "block_w block_size_x block_size_y check_convergence depth_map_input
     gradient_magnitude_div_sqrt2 threshold w h b dev =
     (let origin = tile_origin (block_coordinates dev) b;
          (depth_shared, weights_shared, flags) =
             block_iterations_w block_size_x block_size_y check_convergence depth_map_input
               gradient_magnitude_div_sqrt2 threshold w h b dev
      in dev\<lparr>depth_map_output :=
               apply_writes
                 (concat (map (output_write_w block_size_x block_size_y depth_map_input
                                 w h origin depth_shared)
                            (block_threads block_size_x block_size_y)))
                 (depth_map_output dev),
             max_change := flags\<rparr>)"

definition ConvolutionInpaintingKernelWithWeighting ::
  "int \<Rightarrow> int \<Rightarrow> bool \<Rightarrow> nat \<Rightarrow> texture \<Rightarrow> gradient \<Rightarrow> fval \<Rightarrow> int \<Rightarrow> int \<Rightarrow> device \<Rightarrow> device" where
  "ConvolutionInpaintingKernelWithWeighting block_size_x block_size_y check_convergence
     grid_dim_active depth_map_input gradient_magnitude_div_sqrt2 threshold w h dev =
     fold (block_w block_size_x block_size_y check_convergence depth_map_input
             gradient_magnitude_div_sqrt2 threshold w h)
       [0..<grid_dim_active] dev"

section \<open>The host function\<close>

text \<open>
  Modelled from the spec: \<^verbatim>\<open>cuda_util::GetBlockCount\<close> is not part of the sources. The
  spec derives the tile grid from the image size and the per-tile output region: the number
  of output regions needed to cover the image.
\<close>

definition GetBlockCount :: "int \<Rightarrow> int \<Rightarrow> int" where
  "GetBlockCount n block_size = (n + block_size - 1) div block_size"

text \<open>
  What the host observes of one launch: the loop counter, the kernel variant, the number
  of blocks and the tiles they run over, and the flags downloaded when convergence is
  checked.
\<close>

record launch_record =
  lr_iteration :: int
  lr_check_convergence :: bool
  lr_grid_dim_active :: nat
  lr_tiles :: "(16 word \<times> 16 word) list"
  lr_max_change_cpu :: "8 word list"

definition launch_diffusion ::
  "bool \<Rightarrow> texture \<Rightarrow> gradient \<Rightarrow> fval \<Rightarrow> int \<Rightarrow> int \<Rightarrow> bool \<Rightarrow> nat \<Rightarrow> device \<Rightarrow> device" where
  "launch_diffusion use_weighting depth_map_input gradient_magnitude_div_sqrt2 threshold w h
     check_convergence grid_dim_active dev =
     (if use_weighting
      then ConvolutionInpaintingKernelWithWeighting 32 32 check_convergence grid_dim_active
             depth_map_input gradient_magnitude_div_sqrt2 threshold w h dev
      else ConvolutionInpaintingKernel 32 32 check_convergence grid_dim_active
             depth_map_input threshold w h dev)"

text \<open>
  The loop counter \<open>i\<close> and \<open>last_convergence_check_iteration\<close> are of type \<^verbatim>\<open>int\<close>.
  Overflow of a signed integer is undefined behaviour in the source; the model stops
  there with \<open>SignedOverflow\<close>.
\<close>

datatype undefined_behaviour = SignedOverflow

definition int_ok :: "int \<Rightarrow> bool" where
  "int_ok v = (- 2147483648 \<le> v \<and> v \<le> 2147483647)"

text \<open>
  The loop \<^verbatim>\<open>for (i = 0; i < max_num_iterations; i += kIterationsPerKernelCall)\<close>, from
  the counter \<open>i\<close> and \<open>last_convergence_check_iteration\<close>. The subtraction
  \<^verbatim>\<open>i - last_convergence_check_iteration\<close> comes first; after the launch and the download
  of the flags, each of the three paths through the body adds
  \<open>kIterationsPerKernelCall\<close> to \<open>i\<close> (before the \<^verbatim>\<open>break\<close>, or as the step of the
  \<^verbatim>\<open>for\<close>), so the model tests this addition once for the three.
\<close>

function inpaint_iterations ::
  "(bool \<Rightarrow> nat \<Rightarrow> device \<Rightarrow> device) \<Rightarrow> int \<Rightarrow> nat \<Rightarrow> int \<Rightarrow> int \<Rightarrow> device \<Rightarrow> launch_record list
     \<Rightarrow> undefined_behaviour + int \<times> device \<times> launch_record list" where
  "inpaint_iterations launch max_num_iterations active_count i last_convergence_check_iteration
     dev trace =
     (if i < max_num_iterations
      then (if \<not> int_ok (i - last_convergence_check_iteration) then Inl SignedOverflow
            else
             (let check_convergence = (i - last_convergence_check_iteration \<ge> 25);
                  dev' = launch check_convergence active_count dev;
                  max_change_cpu =
                    (if check_convergence then map (max_change dev') [0..<active_count] else []);
                  trace' = trace @
                    [\<lparr>lr_iteration = i, lr_check_convergence = check_convergence,
                      lr_grid_dim_active = active_count,
                      lr_tiles = active_tiles active_count (block_coordinates dev),
                      lr_max_change_cpu = max_change_cpu\<rparr>]
              in if \<not> int_ok (i + kIterationsPerKernelCall) then Inl SignedOverflow
                 else if check_convergence
                 then (let new_active_block_count = length (filter (\<lambda>f. f \<noteq> 0) max_change_cpu)
                       in if new_active_block_count = 0
                          then Inr (i + kIterationsPerKernelCall, dev', trace')
                          else inpaint_iterations launch max_num_iterations active_count
                                 (i + kIterationsPerKernelCall) i dev' trace')
                 else inpaint_iterations launch max_num_iterations active_count
                        (i + kIterationsPerKernelCall) last_convergence_check_iteration dev' trace'))
      else Inr (i, dev, trace))"
  by pat_completeness auto
termination
  by (relation "measure (\<lambda>(launch, max_num_iterations, active_count, i, rest).
                  nat (max_num_iterations - i))")
     (auto simp: kIterationsPerKernelCall_def)

declare inpaint_iterations.simps [simp del]

record inpaint_result =
  iterations_returned :: int
  pixel_count :: "32 word"
  device_after :: device
  launches :: "launch_record list"

text \<open>
  The first part of \<^verbatim>\<open>InpaintDepthMapWithConvolutionCUDA\<close>: the initialisation
  kernel, the download of the per-tile counts and the compaction. \<open>w\<close> and \<open>h\<close> are
  the width and height of \<^verbatim>\<open>depth_map_output\<close>, \<open>dev\<close> is the device memory at the
  call and \<open>cpu0\<close> the content of the freshly allocated array
  \<^verbatim>\<open>block_coordinates_cpu\<close>.
\<close>

definition initialize ::
  "fval \<Rightarrow> texture \<Rightarrow> int \<Rightarrow> int \<Rightarrow> device \<Rightarrow> (nat \<Rightarrow> 16 word) \<Rightarrow> device \<times> compaction" where
  "initialize depth_input_scaling_factor depth_map_input w h dev cpu0 =
     (let kBlockOutputSizeX = kBlockWidth - 2 * kIterationsPerKernelCall;
          kBlockOutputSizeY = kBlockHeight - 2 * kIterationsPerKernelCall;
          grid_dim = (GetBlockCount w kBlockOutputSizeX, GetBlockCount h kBlockOutputSizeY);
          dev1 = ConvolutionInpaintingInitializeVariablesKernel 32 32 grid_dim (fst grid_dim)
                   depth_input_scaling_factor depth_map_input w h dev;
          block_activity = block_coordinates dev1
      in (dev1, compact_blocks block_activity (nat (fst grid_dim)) (nat (snd grid_dim))
                  kBlockOutputSizeX kBlockOutputSizeY cpu0))"

text \<open>
  The upload of the compacted list: the first \<open>2 * active_block_count\<close> entries of
  \<^verbatim>\<open>block_coordinates\<close>.
\<close>

definition upload_tiles :: "compaction \<Rightarrow> device \<Rightarrow> device" where
  "upload_tiles c dev =
     dev\<lparr>block_coordinates :=
           (\<lambda>k. if k < 2 * active_block_count c then block_coordinates_cpu c k
                 else block_coordinates dev k)\<rparr>"

definition InpaintDepthMapWithConvolutionCUDA ::
  "bool \<Rightarrow> int \<Rightarrow> fval \<Rightarrow> fval \<Rightarrow> gradient \<Rightarrow> texture \<Rightarrow> int \<Rightarrow> int \<Rightarrow> device \<Rightarrow> (nat \<Rightarrow> 16 word)
     \<Rightarrow> undefined_behaviour + inpaint_result" where
  "InpaintDepthMapWithConvolutionCUDA use_weighting max_num_iterations max_change_rate_threshold
     depth_input_scaling_factor gradient_magnitude_div_sqrt2 depth_map_input w h dev cpu0 =
     (let (dev1, c) = initialize depth_input_scaling_factor depth_map_input w h dev cpu0
      in if active_block_count c = 0
         then Inr \<lparr>iterations_returned = 0, pixel_count = pixel_to_inpaint_count c,
                   device_after = dev1, launches = []\<rparr>
         else (case inpaint_iterations
                      (launch_diffusion use_weighting depth_map_input
                         gradient_magnitude_div_sqrt2 max_change_rate_threshold w h)
                      max_num_iterations (active_block_count c) 0 (- 9999)
                      (upload_tiles c dev1) [] of
                 Inl e \<Rightarrow> Inl e
               | Inr (i, dev3, trace) \<Rightarrow>
                   Inr \<lparr>iterations_returned = i, pixel_count = pixel_to_inpaint_count c,
                         device_after = dev3, launches = trace\<rparr>))"

section \<open>The cached texture object of a buffer\<close>

datatype cudaTextureAddressMode =
  cudaAddressModeWrap | cudaAddressModeClamp | cudaAddressModeMirror | cudaAddressModeBorder

datatype cudaTextureFilterMode = cudaFilterModePoint | cudaFilterModeLinear

datatype cudaTextureReadMode = cudaReadModeElementType | cudaReadModeNormalizedFloat

text \<open>The descriptors handed to \<^verbatim>\<open>cudaCreateTextureObject\<close>.\<close>

record texture_desc =
  res_devPtr :: nat
  res_pitchInBytes :: nat
  res_width :: nat
  res_height :: nat
  addressMode0 :: cudaTextureAddressMode
  addressMode1 :: cudaTextureAddressMode
  filterMode :: cudaTextureFilterMode
  readMode :: cudaTextureReadMode
  normalizedCoords :: int

text \<open>
  The CUDA runtime, as far as texture objects go: the live objects with their descriptors,
  the next handle to hand out, and the calls made so far. Creation is taken to succeed (the
  program does not check its result).
\<close>

datatype runtime_call = Created nat texture_desc | Destroyed nat

record cuda_runtime =
  live_textures :: "nat \<rightharpoonup> texture_desc"
  next_handle :: nat
  calls :: "runtime_call list"

definition cudaCreateTextureObject :: "texture_desc \<Rightarrow> cuda_runtime \<Rightarrow> nat \<times> cuda_runtime" where
  "cudaCreateTextureObject desc rt =
     (next_handle rt,
      rt\<lparr>live_textures := (live_textures rt)(next_handle rt \<mapsto> desc),
         next_handle := next_handle rt + 1,
         calls := calls rt @ [Created (next_handle rt) desc]\<rparr>)"

definition cudaDestroyTextureObject :: "nat \<Rightarrow> cuda_runtime \<Rightarrow> cuda_runtime" where
  "cudaDestroyTextureObject obj rt =
     rt\<lparr>live_textures := (live_textures rt)(obj := None), calls := calls rt @ [Destroyed obj]\<rparr>"

text \<open>The members of \<^verbatim>\<open>CUDABuffer<T>\<close>.\<close>

record CUDABuffer =
  data_address :: nat
  data_pitch :: nat
  data_width :: nat
  data_height :: nat
  texture_object_allocated :: bool
  texture_object :: nat
  address_mode_x :: cudaTextureAddressMode
  address_mode_y :: cudaTextureAddressMode
  filter_mode :: cudaTextureFilterMode
  read_mode :: cudaTextureReadMode
  use_normalized_coordinates :: bool

definition CreateTextureObject ::
  "CUDABuffer \<Rightarrow> cudaTextureAddressMode \<Rightarrow> cudaTextureAddressMode \<Rightarrow> cudaTextureFilterMode
     \<Rightarrow> cudaTextureReadMode \<Rightarrow> bool \<Rightarrow> cuda_runtime \<Rightarrow> nat \<times> cuda_runtime" where
  "CreateTextureObject buf amx amy fm rm normalized rt =
     cudaCreateTextureObject
       \<lparr>res_devPtr = data_address buf, res_pitchInBytes = data_pitch buf,
        res_width = data_width buf, res_height = data_height buf,
        addressMode0 = amx, addressMode1 = amy, filterMode = fm, readMode = rm,
        normalizedCoords = (if normalized then 1 else 0)\<rparr> rt"

datatype error = CheckNotNullFailed

text \<open>
  \<^verbatim>\<open>GetCachedTextureObject\<close>. \<open>out_is_null\<close> says whether the pointer
  \<^verbatim>\<open>texture_object\<close> of the caller is null; the value stored through it is the first
  component of the result.
\<close>

definition GetCachedTextureObject ::
  "cudaTextureAddressMode \<Rightarrow> cudaTextureAddressMode \<Rightarrow> cudaTextureFilterMode
     \<Rightarrow> cudaTextureReadMode \<Rightarrow> bool \<Rightarrow> bool \<Rightarrow> CUDABuffer \<times> cuda_runtime
     \<Rightarrow> error + nat \<times> CUDABuffer \<times> cuda_runtime" where
  "GetCachedTextureObject amx amy fm rm normalized out_is_null st =
     (let (buf, rt) = st in
      if out_is_null then Inl CheckNotNullFailed
      else if texture_object_allocated buf \<and>
              address_mode_x buf = amx \<and> address_mode_y buf = amy \<and> filter_mode buf = fm \<and>
              read_mode buf = rm \<and> use_normalized_coordinates buf = normalized
      then Inr (texture_object buf, buf, rt)
      else (let rt1 = (if texture_object_allocated buf
                       then cudaDestroyTextureObject (texture_object buf) rt else rt);
                (obj, rt2) = CreateTextureObject buf amx amy fm rm normalized rt1;
                buf' = buf\<lparr>texture_object := obj, texture_object_allocated := True,
                           address_mode_x := amx, address_mode_y := amy, filter_mode := fm,
                           read_mode := rm, use_normalized_coordinates := normalized\<rparr>
            in Inr (obj, buf', rt2)))"

text \<open>The configuration that the cache of a buffer holds.\<close>

definition cached_configuration ::
  "CUDABuffer \<Rightarrow> cudaTextureAddressMode \<times> cudaTextureAddressMode \<times> cudaTextureFilterMode
     \<times> cudaTextureReadMode \<times> bool" where
  "cached_configuration buf =
     (address_mode_x buf, address_mode_y buf, filter_mode buf, read_mode buf,
      use_normalized_coordinates buf)"

section \<open>Notions used in the statements\<close>

text \<open>A number rounded up to the next multiple of \<open>k\<close>.\<close>

definition round_up :: "int \<Rightarrow> int \<Rightarrow> int" where
  "round_up m k = k * ((m + k - 1) div k)"

text \<open>
  The record of the launch that the host loop makes at counter \<open>i\<close>, when the last check
  was at \<open>lc\<close> and the device memory is \<open>dev\<close>.
\<close>

definition launch_entry ::
  "(bool \<Rightarrow> nat \<Rightarrow> device \<Rightarrow> device) \<Rightarrow> nat \<Rightarrow> int \<Rightarrow> int \<Rightarrow> device \<Rightarrow> launch_record" where
  "launch_entry launch n i lc dev =
     \<lparr>lr_iteration = i, lr_check_convergence = (25 \<le> i - lc), lr_grid_dim_active = n,
      lr_tiles = active_tiles n (block_coordinates dev),
      lr_max_change_cpu =
        (if 25 \<le> i - lc then map (max_change (launch True n dev)) [0..<n] else [])\<rparr>"

text \<open>A launch that checked convergence and downloaded no set flag.\<close>

definition converged_entry :: "launch_record \<Rightarrow> bool" where
  "converged_entry r = (lr_check_convergence r \<and> (\<forall>f\<in>set (lr_max_change_cpu r). f = 0))"

text \<open>The pairs of loop counter and last check that the host loop goes through.\<close>

definition schedule :: "int \<Rightarrow> int \<Rightarrow> bool" where
  "schedule i lc = ((i = 0 \<and> lc = - 9999) \<or>
     (0 \<le> lc \<and> lc mod 28 = 0 \<and> lc < i \<and> i \<le> lc + 28 \<and> i mod 4 = 0))"

text \<open>The origin of a tile as stored, and the test of the compaction.\<close>

definition tile_origin_words :: "int \<Rightarrow> int \<Rightarrow> nat \<times> nat \<Rightarrow> 16 word \<times> 16 word" where
  "tile_origin_words kx ky p = (word_of_int (int (fst p) * kx), word_of_int (int (snd p) * ky))"

definition tile_active :: "(nat \<Rightarrow> 16 word) \<Rightarrow> nat \<Rightarrow> nat \<times> nat \<Rightarrow> bool" where
  "tile_active act gx p = (act (fst p + snd p * gx) > 0)"

text \<open>The descriptor that a request for a texture object of a buffer asks for.\<close>

definition requested_desc ::
  "CUDABuffer \<Rightarrow> cudaTextureAddressMode \<Rightarrow> cudaTextureAddressMode \<Rightarrow> cudaTextureFilterMode
     \<Rightarrow> cudaTextureReadMode \<Rightarrow> bool \<Rightarrow> texture_desc" where
  "requested_desc buf amx amy fm rm normalized =
     \<lparr>res_devPtr = data_address buf, res_pitchInBytes = data_pitch buf,
        res_width = data_width buf, res_height = data_height buf,
        addressMode0 = amx, addressMode1 = amy, filterMode = fm, readMode = rm,
        normalizedCoords = (if normalized then 1 else 0)\<rparr>"

text \<open>The writes of the threads of one block of the initialisation kernel.\<close>

definition init_writes ::
  "int \<Rightarrow> int \<Rightarrow> fval \<Rightarrow> texture \<Rightarrow> int \<Rightarrow> int \<Rightarrow> int \<times> int \<Rightarrow> ((int \<times> int) \<times> fval) list" where
  "init_writes bsx bsy s tex w h blk =
     concat (map fst (map (init_thread bsx bsy s tex w h blk) (block_threads bsx bsy)))"

section \<open>Concrete inputs\<close>



definition tex_zero :: texture where
  "tex_zero x y = Fin 0"

definition tex_ten :: texture where
  "tex_ten x y = Fin 10"

definition grad_zero :: gradient where
  "grad_zero x y = 0"

definition dev_zero :: device where
  "dev_zero = \<lparr>depth_map_output = (\<lambda>p. Fin 0), block_coordinates = (\<lambda>k. 0),
                max_change = (\<lambda>k. 0)\<rparr>"

definition activity0 :: "nat \<Rightarrow> 16 word" where
  "activity0 k = (if k = 1 then 5 else if k = 2 then 7 else 0)"

definition activity_wide :: "nat \<Rightarrow> 16 word" where
  "activity_wide k = (if k = 2731 then 1 else 0)"

definition cpu_zero :: "nat \<Rightarrow> 16 word" where
  "cpu_zero k = 0"

definition buf0 :: CUDABuffer where
  "buf0 = \<lparr>data_address = 4096, data_pitch = 512, data_width = 100, data_height = 50,
     texture_object_allocated = True, texture_object = 7,
     address_mode_x = cudaAddressModeClamp, address_mode_y = cudaAddressModeClamp,
     filter_mode = cudaFilterModePoint, read_mode = cudaReadModeElementType,
     use_normalized_coordinates = False\<rparr>"

definition rt0 :: cuda_runtime where
  "rt0 = \<lparr>live_textures = Map.empty(7 \<mapsto> requested_desc buf0 cudaAddressModeClamp
                cudaAddressModeClamp cudaFilterModePoint cudaReadModeElementType False),
          next_handle = 8, calls = []\<rparr>"

text \<open>
  A call on a 1 x 1 image without a hole and with scaling factor 2, and a call with a
  negative budget.
\<close>

definition no_holes_run :: "undefined_behaviour + inpaint_result" where
  "no_holes_run = InpaintDepthMapWithConvolutionCUDA False 100 (Fin (1 / 100)) (Fin 2) grad_zero
                    tex_ten 1 1 dev_zero cpu_zero"

definition negative_budget_run :: "undefined_behaviour + inpaint_result" where
  "negative_budget_run = InpaintDepthMapWithConvolutionCUDA False (- 8) (Fin (1 / 100)) (Fin 1)
                           grad_zero tex_zero 1 1 dev_zero cpu_zero"

section \<open>Invariants of the working buffer\<close>

text \<open>
  Finite values, finite non-negative values, and the values that are not negative: the
  non-negative numbers, \<open>+ infinity\<close> and \<open>NaN\<close>.
\<close>

definition is_finite :: "fval \<Rightarrow> bool" where
  "is_finite v = (case v of Fin r \<Rightarrow> True | _ \<Rightarrow> False)"

definition is_nonneg :: "fval \<Rightarrow> bool" where
  "is_nonneg v = (case v of Fin r \<Rightarrow> 0 \<le> r | _ \<Rightarrow> False)"

definition not_negative :: "fval \<Rightarrow> bool" where
  "not_negative v = (case v of Fin r \<Rightarrow> 0 \<le> r | NInf \<Rightarrow> False | _ \<Rightarrow> True)"

text \<open>
  The non-negative results of rounding: zero, a number from \<open>float_denorm_min\<close> on, or
  \<open>+ infinity\<close>.
\<close>

definition float_nonneg :: "fval \<Rightarrow> bool" where
  "float_nonneg v =
     (case v of Fin r \<Rightarrow> r = 0 \<or> float_denorm_min \<le> r | PInf \<Rightarrow> True | _ \<Rightarrow> False)"

text \<open>
  The accumulated pair \<open>(new_depth, weight)\<close> of the kernel with weighting: the weight is a
  non-negative result of rounding, and with weight zero the sum is zero or \<open>NaN\<close>.
\<close>

definition acc_weak :: "fval \<times> fval \<Rightarrow> bool" where
  "acc_weak a = (float_nonneg (snd a) \<and> (snd a = Fin 0 \<longrightarrow> fst a = Fin 0 \<or> fst a = NaN))"

text \<open>
  Shared memory \<open>sh\<close> against the loaded one \<open>sh0\<close>: every cell holds the loaded value or
  a value that is not negative.
\<close>

definition kept_or_not_negative :: "(int \<Rightarrow> fval) \<Rightarrow> (int \<Rightarrow> fval) \<Rightarrow> bool" where
  "kept_or_not_negative sh0 sh = (\<forall>j. sh j = sh0 j \<or> not_negative (sh j))"

definition weights_ok :: "(int \<Rightarrow> fval) \<Rightarrow> bool" where
  "weights_ok ws = (\<forall>j. is_nonneg (ws j))"

text \<open>The working buffer inside the image: no hole holds a negative value.\<close>

definition holes_not_negative :: "texture \<Rightarrow> int \<Rightarrow> int \<Rightarrow> (int \<times> int \<Rightarrow> fval) \<Rightarrow> bool" where
  "holes_not_negative tex w h buffer =
     (\<forall>y x. 0 \<le> x \<and> x < w \<and> 0 \<le> y \<and> y < h \<and> kIsPixelToInpaint tex x y \<longrightarrow>
        not_negative (buffer (y, x)))"

text \<open>The number of active threads of a block of the initialization kernel.\<close>

definition init_count :: "int \<Rightarrow> int \<Rightarrow> fval \<Rightarrow> texture \<Rightarrow> int \<Rightarrow> int \<Rightarrow> int \<times> int \<Rightarrow> int" where
  "init_count bsx bsy s tex w h blk =
     sum_list (map (\<lambda>r. if snd r then 1 else 0)
       (map (init_thread bsx bsy s tex w h blk) (block_threads bsx bsy)))"

section \<open>The changes behind the flags\<close>

text \<open>
  The changes that the threads of block \<open>b\<close> compute in the last sub-iteration of a launch
  that checks convergence, when the block starts from the device memory \<open>dev\<close>: the block
  loads shared memory, runs the sub-iterations before the last one, and computes the changes
  from the shared memory that they leave.
\<close>

definition final_changes_u ::
  "int \<Rightarrow> int \<Rightarrow> texture \<Rightarrow> fval \<Rightarrow> int \<Rightarrow> int \<Rightarrow> nat \<Rightarrow> device \<Rightarrow> fval list" where
  "final_changes_u bsx bsy tex thr w h b dev =
     (let origin = tile_origin (block_coordinates dev) b;
          threads = block_threads bsx bsy;
          st = fold (sub_iteration_u bsx bsy True tex thr w h origin b)
                 [0..kIterationsPerKernelCall - 2]
                 (load_shared bsx (pixel_u w h origin) (depth_map_output dev) threads,
                  max_change dev)
      in map (change_u bsx bsy True tex w h origin (kIterationsPerKernelCall - 1) (fst st))
           threads)"

definition final_changes_w ::
  "int \<Rightarrow> int \<Rightarrow> texture \<Rightarrow> gradient \<Rightarrow> fval \<Rightarrow> int \<Rightarrow> int \<Rightarrow> nat \<Rightarrow> device \<Rightarrow> fval list" where
  "final_changes_w bsx bsy tex g thr w h b dev =
     (let origin = tile_origin (block_coordinates dev) b;
          threads = block_threads bsx bsy;
          st = fold (sub_iteration_w bsx bsy True tex g thr w h origin b)
                 [0..kIterationsPerKernelCall - 2]
                 (load_shared bsx (pixel_w w h origin) (depth_map_output dev) threads,
                  load_weights bsx g w h origin (depth_map_output dev) threads,
                  max_change dev)
      in map (change_w bsx bsy tex w h origin (fst st) (fst (snd st))) threads)"

text \<open>
  The device memory at the start of block \<open>b\<close> of a launch that checks convergence, and
  the changes of that block in the launch.
\<close>

definition block_start ::
  "bool \<Rightarrow> texture \<Rightarrow> gradient \<Rightarrow> fval \<Rightarrow> int \<Rightarrow> int \<Rightarrow> nat \<Rightarrow> device \<Rightarrow> device" where
  "block_start use_weighting tex g thr w h b dev =
     (if use_weighting then fold (block_w 32 32 True tex g thr w h) [0..<b] dev
      else fold (block_u 32 32 True tex thr w h) [0..<b] dev)"

definition final_changes ::
  "bool \<Rightarrow> texture \<Rightarrow> gradient \<Rightarrow> fval \<Rightarrow> int \<Rightarrow> int \<Rightarrow> nat \<Rightarrow> device \<Rightarrow> fval list" where
  "final_changes use_weighting tex g thr w h b dev =
     (if use_weighting
      then final_changes_w 32 32 tex g thr w h b (block_start use_weighting tex g thr w h b dev)
      else final_changes_u 32 32 tex thr w h b (block_start use_weighting tex g thr w h b dev))"

text \<open>No change of a launch over \<open>n\<close> blocks exceeds the threshold.\<close>

definition no_change_exceeds ::
  "bool \<Rightarrow> texture \<Rightarrow> gradient \<Rightarrow> fval \<Rightarrow> int \<Rightarrow> int \<Rightarrow> nat \<Rightarrow> device \<Rightarrow> bool" where
  "no_change_exceeds use_weighting tex g thr w h n dev =
     (\<forall>b<n. \<forall>c\<in>set (final_changes use_weighting tex g thr w h b dev). \<not> fgt c thr)"

text \<open>The device memory at the first launch of a call.\<close>

definition first_launch_device ::
  "fval \<Rightarrow> texture \<Rightarrow> int \<Rightarrow> int \<Rightarrow> device \<Rightarrow> (nat \<Rightarrow> 16 word) \<Rightarrow> device" where
  "first_launch_device s tex w h dev cpu0 =
     upload_tiles (snd (initialize s tex w h dev cpu0)) (fst (initialize s tex w h dev cpu0))"

section \<open>Concrete calls\<close>

text \<open>
  A call on the 1 x 1 image of one hole whose threshold is negative, with the largest
  budget.
\<close>

definition endless_run :: "undefined_behaviour + inpaint_result" where
  "endless_run = InpaintDepthMapWithConvolutionCUDA False 2147483647 (Fin (- 1)) (Fin 1) grad_zero
                   tex_zero 1 1 dev_zero cpu_zero"

text \<open>
  A call on an image of 2 x 1 pixels with depth \<open>2 ^ 100\<close> in the first pixel and a hole in
  the second, with the scaling factor \<open>2 ^ 100\<close> and a budget of 4 iterations.
\<close>

definition big_depth :: fval where
  "big_depth = Fin (2 ^ 100)"

definition tex_big :: texture where
  "tex_big x y = (if x = 0 then big_depth else Fin 0)"

definition big_run :: "undefined_behaviour + inpaint_result" where
  "big_run = InpaintDepthMapWithConvolutionCUDA False 4 (Fin (1 / 100)) big_depth grad_zero
               tex_big 2 1 dev_zero cpu_zero"

text \<open>
  The device state at the first launch of that call, and the shared memory in which the
  column of cells of the first pixel holds the overflowed depth.
\<close>

definition big_start :: device where
  "big_start = upload_tiles (snd (initialize big_depth tex_big 2 1 dev_zero cpu_zero))
                 (fst (initialize big_depth tex_big 2 1 dev_zero cpu_zero))"

definition big_column :: "(int \<Rightarrow> fval) \<Rightarrow> bool" where
  "big_column sh = (\<forall>ty. 0 \<le> ty \<and> ty < 32 \<longrightarrow> sh (4 + 32 * ty) = PInf)"

text \<open>A call on a 1 x 1 image whose only pixel is a hole, and shared memory of zeros.\<close>

definition shared_zero :: "int \<Rightarrow> fval" where
  "shared_zero j = Fin 0"

definition all_holes_run :: "undefined_behaviour + inpaint_result" where
  "all_holes_run = InpaintDepthMapWithConvolutionCUDA False 100 (Fin (1 / 100)) (Fin 1) grad_zero
                     tex_zero 1 1 dev_zero cpu_zero"

text \<open>
  A call on an image of 48 x 1 pixels with depth 10 in the first pixel and holes elsewhere,
  with a budget of 8 iterations. The image has two tiles, of origins \<open>(0, 0)\<close> and
  \<open>(24, 0)\<close>; \<open>row_start\<close> is the device state at the first launch.
\<close>

definition tex_row :: texture where
  "tex_row x y = (if x = 0 then Fin 10 else Fin 0)"

definition row_init :: "device \<times> compaction" where
  "row_init = initialize (Fin 1) tex_row 48 1 dev_zero cpu_zero"

definition row_start :: device where
  "row_start = upload_tiles (snd row_init) (fst row_init)"

definition row_run :: "undefined_behaviour + inpaint_result" where
  "row_run = InpaintDepthMapWithConvolutionCUDA False 8 (Fin (1 / 100)) (Fin 1) grad_zero tex_row
     48 1 dev_zero cpu_zero"

text \<open>The same call with a budget of 4 iterations.\<close>

definition row_run_short :: "undefined_behaviour + inpaint_result" where
  "row_run_short = InpaintDepthMapWithConvolutionCUDA False 4 (Fin (1 / 100)) (Fin 1) grad_zero
     tex_row 48 1 dev_zero cpu_zero"

text \<open>The same call with a budget of 32 iterations.\<close>

definition row_run_long :: "undefined_behaviour + inpaint_result" where
  "row_run_long = InpaintDepthMapWithConvolutionCUDA False 32 (Fin (1 / 100)) (Fin 1) grad_zero
     tex_row 48 1 dev_zero cpu_zero"

text \<open>
  The state of the first block of the first launch after \<open>k\<close> sub-iterations, its shared
  memory, and the device after that block.
\<close>

definition row_state :: "nat \<Rightarrow> (int \<Rightarrow> fval) \<times> (nat \<Rightarrow> 8 word)" where
  "row_state k =
     fold (sub_iteration_u 32 32 True tex_row (Fin (1 / 100)) 48 1
             (tile_origin (block_coordinates row_start) 0) 0)
       (map int [0..<k])
       (load_shared 32 (pixel_u 48 1 (tile_origin (block_coordinates row_start) 0))
          (depth_map_output row_start) (block_threads 32 32),
        max_change row_start)"

definition row_shared :: "nat \<Rightarrow> int \<Rightarrow> fval" where
  "row_shared k = fst (row_state k)"

definition row_block_0 :: device where
  "row_block_0 = block_u 32 32 True tex_row (Fin (1 / 100)) 48 1 0 row_start"

text \<open>
  Shared memory of that block after \<open>k\<close> sub-iterations: every row of cells holds the image
  row, in which the depth 10 has reached the pixels \<open>0, \<dots>, k\<close>; the first and the last
  row of cells stay as loaded.
\<close>

definition row_profile :: "nat \<Rightarrow> (int \<Rightarrow> fval) \<Rightarrow> bool" where
  "row_profile k sh =
     (\<forall>tx ty. 0 \<le> tx \<and> tx < 32 \<and> 0 \<le> ty \<and> ty < 32 \<longrightarrow>
        sh (tx + 32 * ty) =
          (if 4 \<le> tx \<and> tx \<le> 4 + (if 0 < ty \<and> ty < 31 then int k else 0) then Fin 10
           else Fin 0))"

section \<open>Rounding to binary32\<close>

lemma round_even_nonneg: "0 \<le> x \<Longrightarrow> 0 \<le> round_even x"
  by (auto simp: round_even_def Let_def)

lemma round_even_0 [simp]: "round_even 0 = 0"
  by (simp add: round_even_def)

lemma round_even_of_int [simp]: "round_even (of_int n) = n"
  by (simp add: round_even_def)

lemma round_even_ge: "of_int n \<le> x \<Longrightarrow> n \<le> round_even x"
proof -
  assume "of_int n \<le> x"
  then have "n \<le> \<lfloor>x\<rfloor>" by (simp add: le_floor_iff)
  then show ?thesis by (auto simp: round_even_def Let_def)
qed

lemma float_exponent_ge: "e \<le> float_exponent n e a"
  by (induction n e a rule: float_exponent.induct) auto

lemma float_exponent_low: "float_exponent n e a = e \<or> 2 powi float_exponent n e a \<le> a"
  by (induction n e a rule: float_exponent.induct) auto

text \<open>The exponent, from the two powers of two that enclose the number.\<close>

lemma float_exponent_eq:
  assumes "e0 \<le> e" "e \<le> e0 + int n" "e < e0 + int n \<longrightarrow> a < 2 powi (e + 1)"
    "e = e0 \<or> 2 powi e \<le> a"
  shows "float_exponent n e0 a = e"
  using assms
proof (induction n e0 a rule: float_exponent.induct)
  case (1 e0 a)
  then show ?case by simp
next
  case (2 n e0 a)
  show ?case
  proof (cases "a < 2 powi (e0 + 1)")
    case True
    have "e = e0"
    proof (rule ccontr)
      assume "e \<noteq> e0"
      with 2 have "2 powi e \<le> a" "e0 + 1 \<le> e" by auto
      then have "2 powi (e0 + 1) \<le> a"
        using power_int_increasing [of "e0 + 1" e "2::real"] by linarith
      with True show False by simp
    qed
    with True show ?thesis by simp
  next
    case False
    with 2 have "e \<noteq> e0" by auto
    with 2 False show ?thesis by auto
  qed
qed

lemma float_denorm_min_pos: "0 < float_denorm_min"
  by (simp add: float_denorm_min_def)

lemma float_ulp_pos: "0 < float_ulp a"
  by (simp add: float_ulp_def)

lemma float_ulp_ge: "float_denorm_min \<le> float_ulp a"
proof -
  have "- 149 \<le> float_exponent 254 (- 126) a - 23"
    using float_exponent_ge [of "- 126" 254 a] by simp
  then show ?thesis
    unfolding float_ulp_def float_denorm_min_def by (intro power_int_increasing) simp_all
qed

lemma float_ulp_le:
  assumes "float_denorm_min \<le> a"
  shows "float_ulp a \<le> a"
proof -
  let ?e = "float_exponent 254 (- 126) a"
  have "float_ulp a \<le> 2 powi ?e"
    unfolding float_ulp_def by (rule power_int_increasing) simp_all
  moreover have "float_ulp a = float_denorm_min" if "?e = - 126"
    by (simp add: float_ulp_def float_denorm_min_def that)
  ultimately show ?thesis
    using float_exponent_low [of 254 "- 126" a] assms by fastforce
qed

text \<open>Rounding keeps the sign, and a positive result is at least \<open>float_denorm_min\<close>.\<close>

lemma round32_magnitude:
  "0 \<le> of_int (round_even (\<bar>r\<bar> / float_ulp \<bar>r\<bar>)) * float_ulp \<bar>r\<bar>"
  using float_ulp_pos [of "\<bar>r\<bar>"] by (intro mult_nonneg_nonneg) (simp_all add: round_even_nonneg)

lemma round32_0 [simp]: "round32 0 = Fin 0"
  by (simp add: round32_def)

lemma round32_not_NaN [simp]: "round32 r \<noteq> NaN"
  by (simp add: round32_def Let_def)

lemma round32_nonneg:
  "0 \<le> r \<Longrightarrow> round32 r = PInf \<or> (\<exists>v. round32 r = Fin v \<and> 0 \<le> v)"
  using round32_magnitude [of r] by (cases "r = 0") (auto simp: round32_def Let_def)

lemma round32_nonpos:
  "r \<le> 0 \<Longrightarrow> round32 r = NInf \<or> (\<exists>v. round32 r = Fin v \<and> v \<le> 0)"
  using round32_magnitude [of r] by (cases "r = 0") (auto simp: round32_def Let_def)

lemma round32_positive:
  assumes "float_denorm_min \<le> r"
  shows "round32 r = PInf \<or> (\<exists>v. round32 r = Fin v \<and> float_denorm_min \<le> v)"
proof -
  have r: "0 < r" using float_denorm_min_pos assms by simp
  then have a: "\<bar>r\<bar> = r" by simp
  let ?u = "float_ulp r"
  have "?u \<le> r" using assms by (rule float_ulp_le)
  then have "of_int 1 \<le> r / ?u" using float_ulp_pos [of r] by (simp add: le_divide_eq)
  then have "1 \<le> round_even (r / ?u)" by (rule round_even_ge)
  then have "1 * ?u \<le> of_int (round_even (r / ?u)) * ?u"
    using float_ulp_pos [of r] by (intro mult_right_mono) simp_all
  with float_ulp_ge [of r] have "float_denorm_min \<le> of_int (round_even (r / ?u)) * ?u" by simp
  then show ?thesis
    using r by (simp add: round32_def Let_def a)
qed

lemma round32_grid:
  assumes "round32 r = Fin v"
  shows "v = 0 \<or> float_denorm_min \<le> \<bar>v\<bar>"
proof -
  let ?u = "float_ulp \<bar>r\<bar>" and ?q = "round_even (\<bar>r\<bar> / float_ulp \<bar>r\<bar>)"
  from assms have v: "\<bar>v\<bar> = of_int ?q * ?u"
    using round32_magnitude [of r] by (auto simp: round32_def Let_def split: if_splits)
  have q: "0 \<le> ?q" using float_ulp_pos [of "\<bar>r\<bar>"] by (intro round_even_nonneg) simp
  show ?thesis
  proof (cases "?q = 0")
    case True
    with v show ?thesis by simp
  next
    case False
    with q have "1 \<le> ?q" by simp
    then have "1 * ?u \<le> of_int ?q * ?u"
      using float_ulp_pos [of "\<bar>r\<bar>"] by (intro mult_right_mono) simp_all
    with float_ulp_ge [of "\<bar>r\<bar>"] have "float_denorm_min \<le> of_int ?q * ?u" by simp
    with v show ?thesis by simp
  qed
qed

text \<open>The rounding of a number whose exponent is known, and of a number out of range.\<close>

lemma round32_at:
  assumes "- 126 \<le> e" "e \<le> 127" "\<bar>r\<bar> < 2 powi (e + 1)" "e = - 126 \<or> 2 powi e \<le> \<bar>r\<bar>"
  shows "round32 r =
     (let v = of_int (round_even (\<bar>r\<bar> / 2 powi (e - 23))) * 2 powi (e - 23)
      in if 2 ^ 128 \<le> v then (if 0 < r then PInf else NInf)
         else Fin (if 0 \<le> r then v else - v))"
proof -
  have "float_exponent 254 (- 126) \<bar>r\<bar> = e"
    by (rule float_exponent_eq) (use assms in auto)
  then show ?thesis by (simp add: round32_def float_ulp_def)
qed

lemma round32_overflow:
  assumes "2 ^ 128 \<le> \<bar>r\<bar>"
  shows "round32 r = (if 0 < r then PInf else NInf)"
proof -
  have e: "float_exponent 254 (- 126) \<bar>r\<bar> = 128"
  proof (rule float_exponent_eq)
    show "128 = - 126 \<or> 2 powi 128 \<le> \<bar>r\<bar>" using assms by simp
  qed simp_all
  then have u: "float_ulp \<bar>r\<bar> = 2 ^ 105" by (simp add: float_ulp_def)
  have "of_int (2 ^ 23) \<le> \<bar>r\<bar> / 2 ^ 105"
    using assms by (simp add: le_divide_eq)
  then have "2 ^ 23 \<le> round_even (\<bar>r\<bar> / 2 ^ 105)" by (rule round_even_ge)
  then have "(2 ^ 23 :: real) \<le> of_int (round_even (\<bar>r\<bar> / 2 ^ 105))"
    by (metis of_int_le_iff of_int_numeral of_int_power)
  then have "2 ^ 128 \<le> of_int (round_even (\<bar>r\<bar> / 2 ^ 105)) * (2 ^ 105 :: real)"
    by simp
  then show ?thesis by (simp add: round32_def Let_def u)
qed

text \<open>The numbers that the concrete calls below compute with.\<close>

lemma round32_1 [simp]: "round32 1 = Fin 1"
  by (subst round32_at [where e = 0]) (simp_all add: round_even_def)

lemma round32_10 [simp]: "round32 10 = Fin 10"
  by (subst round32_at [where e = 3]) (simp_all add: round_even_def)

lemma round32_20: "round32 20 = Fin 20"
  by (subst round32_at [where e = 4]) (simp_all add: round_even_def)


lemma w_axis_value: "w_axis = 5931249 / 33554432"
proof -
  have "round32 (176765 / 1000000) = Fin (5931249 / 33554432)"
    by (subst round32_at [where e = "- 3"]) (simp_all add: round_even_def)
  then show ?thesis by (simp add: w_axis_def float_literal_def)
qed

lemma w_diagonal_value: "w_diagonal = 9829435 / 134217728"
proof -
  have "round32 (73235 / 1000000) = Fin (9829435 / 134217728)"
    by (subst round32_at [where e = "- 4"]) (simp_all add: round_even_def)
  then show ?thesis by (simp add: w_diagonal_def float_literal_def)
qed

lemma round32_w_axis: "round32 w_axis = Fin w_axis"
  unfolding w_axis_value
  by (subst round32_at [where e = "- 3"]) (simp_all add: round_even_def)

lemma round32_w_diagonal: "round32 w_diagonal = Fin w_diagonal"
  unfolding w_diagonal_value
  by (subst round32_at [where e = "- 4"]) (simp_all add: round_even_def)

lemma w_pos: "0 < w_diagonal" "0 < w_axis"
  by (simp_all add: w_axis_value w_diagonal_value)

lemma round32_w_axis_10: "round32 (w_axis * 10) = Fin (7414061 / 4194304)"
  unfolding w_axis_value
  by (subst round32_at [where e = 0]) (simp_all add: round_even_def)

lemma round32_product_10: "round32 (7414061 / 4194304) = Fin (7414061 / 4194304)"
  by (subst round32_at [where e = 0]) (simp_all add: round_even_def)

lemma round32_quotient_10: "round32 (7414061 / 4194304 / w_axis) = Fin 10"
  unfolding w_axis_value
  by (subst round32_at [where e = 3]) (simp_all add: round_even_def)

section \<open>Writes and threads\<close>

lemma apply_writes_append:
  "apply_writes (ws @ vs) m = apply_writes vs (apply_writes ws m)"
  by (induction ws arbitrary: m) auto

lemma apply_writes_untouched:
  "k \<notin> fst ` set ws \<Longrightarrow> apply_writes ws m k = m k"
  by (induction ws arbitrary: m) auto

lemma apply_writes_cases:
  "apply_writes ws m k = m k \<or> (k, apply_writes ws m k) \<in> set ws"
proof (induction ws arbitrary: m)
  case Nil
  show ?case by simp
next
  case (Cons p ws)
  obtain k' v where p: "p = (k', v)" by (cases p)
  have "apply_writes ws (m(k' := v)) k = (m(k' := v)) k \<or>
        (k, apply_writes ws (m(k' := v)) k) \<in> set ws"
    by (rule Cons)
  then show ?case
    by (cases "k = k'") (auto simp: p)
qed

lemma apply_writes_written:
  "k \<in> fst ` set ws \<Longrightarrow> (k, apply_writes ws m k) \<in> set ws"
proof (induction ws arbitrary: m)
  case Nil
  then show ?case by simp
next
  case (Cons p ws)
  obtain k' v where p: "p = (k', v)" by (cases p)
  show ?case
  proof (cases "k \<in> fst ` set ws")
    case True
    have "(k, apply_writes ws (m(k' := v)) k) \<in> set ws"
      using True by (rule Cons.IH)
    then show ?thesis by (simp add: p)
  next
    case False
    with Cons.prems have "k = k'" by (simp add: p)
    with False show ?thesis by (simp add: p apply_writes_untouched)
  qed
qed

lemma apply_writes_functional:
  assumes "(k, v) \<in> set ws" and "\<And>v'. (k, v') \<in> set ws \<Longrightarrow> v' = v"
  shows "apply_writes ws m k = v"
proof -
  from assms(1) have "k \<in> fst ` set ws" by force
  from apply_writes_written [OF this] assms(2) show ?thesis by blast
qed

lemma apply_writes_pred:
  assumes "P (m k)" and "\<And>v. (k, v) \<in> set ws \<Longrightarrow> P v"
  shows "P (apply_writes ws m k)"
  using apply_writes_cases [of ws m k] assms by auto

lemma block_threads_iff:
  "t \<in> set (block_threads bsx bsy) \<longleftrightarrow> 0 \<le> fst t \<and> fst t < bsx \<and> 0 \<le> snd t \<and> snd t < bsy"
  by (cases t) (auto simp: block_threads_def image_iff)

lemma grid_blocks_iff:
  "b \<in> set (grid_blocks gx gy) \<longleftrightarrow> 0 \<le> fst b \<and> fst b < gx \<and> 0 \<le> snd b \<and> snd b < gy"
  by (cases b) (auto simp: grid_blocks_def image_iff)

lemma shared_mem_index_inj:
  assumes "t1 \<in> set (block_threads bsx bsy)" "t2 \<in> set (block_threads bsx bsy)"
    and "shared_mem_index bsx t1 = shared_mem_index bsx t2"
  shows "t1 = t2"
proof -
  obtain x1 y1 x2 y2 where t: "t1 = (x1, y1)" "t2 = (x2, y2)" by (cases t1, cases t2) auto
  from assms(1,2) have r: "0 \<le> x1" "x1 < bsx" "0 \<le> x2" "x2 < bsx"
    by (auto simp: block_threads_iff t)
  from assms(3) have e: "x1 + bsx * y1 = x2 + bsx * y2" by (simp add: shared_mem_index_def t)
  then have "(x1 + bsx * y1) mod bsx = (x2 + bsx * y2) mod bsx" by simp
  with r have x: "x1 = x2" by simp
  with e r have "bsx * y1 = bsx * y2" by simp
  with r have "y1 = y2" by simp
  with x t show ?thesis by simp
qed

section \<open>The diffusion kernels write hole pixels only\<close>

lemma output_write_u_hole:
  "((y, x), v) \<in> set (output_write_u bsx bsy tex w h origin sh t) \<Longrightarrow> kIsPixelToInpaint tex x y"
  by (auto simp: output_write_u_def split: prod.splits if_splits)

lemma block_u_frame:
  assumes "\<not> kIsPixelToInpaint tex x y"
  shows "depth_map_output (block_u bsx bsy chk tex thr w h b dev) (y, x) = depth_map_output dev (y, x)"
proof -
  have "(y, x) \<notin> fst ` set (concat (map (output_write_u bsx bsy tex w h origin sh) ts))" for origin sh ts
    using assms output_write_u_hole by fastforce
  then show ?thesis
    by (simp add: block_u_def Let_def split: prod.splits) (simp add: apply_writes_untouched)
qed

lemma block_u_coordinates [simp]:
  "block_coordinates (block_u bsx bsy chk tex thr w h b dev) = block_coordinates dev"
  by (simp add: block_u_def Let_def split: prod.splits)

lemma kernel_u_frame:
  assumes "\<not> kIsPixelToInpaint tex x y"
  shows "depth_map_output (ConvolutionInpaintingKernel bsx bsy chk n tex thr w h dev) (y, x) =
         depth_map_output dev (y, x)"
proof -
  have "depth_map_output (fold (block_u bsx bsy chk tex thr w h) bs dev) (y, x) =
        depth_map_output dev (y, x)" for bs
    by (induction bs arbitrary: dev) (simp_all add: block_u_frame [OF assms])
  then show ?thesis by (simp add: ConvolutionInpaintingKernel_def)
qed

lemma kernel_u_coordinates [simp]:
  "block_coordinates (ConvolutionInpaintingKernel bsx bsy chk n tex thr w h dev) = block_coordinates dev"
proof -
  have "block_coordinates (fold (block_u bsx bsy chk tex thr w h) bs dev) = block_coordinates dev" for bs
    by (induction bs arbitrary: dev) simp_all
  then show ?thesis by (simp add: ConvolutionInpaintingKernel_def)
qed

lemma output_write_w_hole:
  "((y, x), v) \<in> set (output_write_w bsx bsy tex w h origin sh t) \<Longrightarrow> kIsPixelToInpaint tex x y"
  by (auto simp: output_write_w_def kOutput_w_def split: prod.splits if_splits)

lemma block_w_frame:
  assumes "\<not> kIsPixelToInpaint tex x y"
  shows "depth_map_output (block_w bsx bsy chk tex g thr w h b dev) (y, x) = depth_map_output dev (y, x)"
proof -
  have "(y, x) \<notin> fst ` set (concat (map (output_write_w bsx bsy tex w h origin sh) ts))" for origin sh ts
    using assms output_write_w_hole by fastforce
  then show ?thesis
    by (simp add: block_w_def Let_def split: prod.splits) (simp add: apply_writes_untouched)
qed

lemma block_w_coordinates [simp]:
  "block_coordinates (block_w bsx bsy chk tex g thr w h b dev) = block_coordinates dev"
  by (simp add: block_w_def Let_def split: prod.splits)

lemma kernel_w_frame:
  assumes "\<not> kIsPixelToInpaint tex x y"
  shows "depth_map_output (ConvolutionInpaintingKernelWithWeighting bsx bsy chk n tex g thr w h dev) (y, x) =
         depth_map_output dev (y, x)"
proof -
  have "depth_map_output (fold (block_w bsx bsy chk tex g thr w h) bs dev) (y, x) =
        depth_map_output dev (y, x)" for bs
    by (induction bs arbitrary: dev) (simp_all add: block_w_frame [OF assms])
  then show ?thesis by (simp add: ConvolutionInpaintingKernelWithWeighting_def)
qed

lemma kernel_w_coordinates [simp]:
  "block_coordinates (ConvolutionInpaintingKernelWithWeighting bsx bsy chk n tex g thr w h dev) =
   block_coordinates dev"
proof -
  have "block_coordinates (fold (block_w bsx bsy chk tex g thr w h) bs dev) = block_coordinates dev" for bs
    by (induction bs arbitrary: dev) simp_all
  then show ?thesis by (simp add: ConvolutionInpaintingKernelWithWeighting_def)
qed

section \<open>The compaction\<close>

lemma active_tiles_snoc:
  "active_tiles (Suc n) (coords(2 * n := a, Suc (2 * n) := b)) = active_tiles n coords @ [(a, b)]"
  by (simp add: active_tiles_def)

lemma active_tiles_0: "active_tiles 0 coords = []"
  by (simp add: active_tiles_def)

lemma compact_step_active:
  "tile_active act gx p \<Longrightarrow>
   active_block_count (compact_step act gx kx ky p c) = Suc (active_block_count c) \<and>
   active_tiles (Suc (active_block_count c)) (block_coordinates_cpu (compact_step act gx kx ky p c)) =
     active_tiles (active_block_count c) (block_coordinates_cpu c) @ [tile_origin_words kx ky p] \<and>
   pixel_to_inpaint_count (compact_step act gx kx ky p c) =
     pixel_to_inpaint_count c + ucast (act (fst p + snd p * gx))"
  by (cases p) (simp add: compact_step_def tile_active_def active_tiles_snoc tile_origin_words_def)

lemma compact_step_inactive:
  "\<not> tile_active act gx p \<Longrightarrow> compact_step act gx kx ky p c = c"
  by (cases p) (simp add: compact_step_def tile_active_def)

lemma fold_compact_count:
  "active_block_count (fold (compact_step act gx kx ky) ps c) =
     active_block_count c + length (filter (tile_active act gx) ps)"
  by (induction ps arbitrary: c) (simp_all add: compact_step_active compact_step_inactive)

lemma fold_compact_pixels:
  "pixel_to_inpaint_count (fold (compact_step act gx kx ky) ps c) =
     pixel_to_inpaint_count c +
       sum_list (map (\<lambda>p. ucast (act (fst p + snd p * gx))) (filter (tile_active act gx) ps))"
  by (induction ps arbitrary: c) (simp_all add: compact_step_active compact_step_inactive add.assoc)

lemma fold_compact_tiles:
  "active_tiles (active_block_count c + length (filter (tile_active act gx) ps))
     (block_coordinates_cpu (fold (compact_step act gx kx ky) ps c)) =
   active_tiles (active_block_count c) (block_coordinates_cpu c) @
     map (tile_origin_words kx ky) (filter (tile_active act gx) ps)"
proof (induction ps arbitrary: c)
  case Nil
  show ?case by simp
next
  case (Cons p ps)
  show ?case
  proof (cases "tile_active act gx p")
    case True
    from Cons.IH [of "compact_step act gx kx ky p c"] True show ?thesis
      by (simp add: compact_step_active)
  next
    case False
    from Cons.IH [of c] False show ?thesis
      by (simp add: compact_step_inactive)
  qed
qed

lemma tile_scan_iff: "p \<in> set (tile_scan gx gy) \<longleftrightarrow> fst p < gx \<and> snd p < gy"
  by (cases p) (auto simp: tile_scan_def image_iff)

lemma unat_add_32: "unat ((x::32 word) + y) = (unat x + unat y) mod 4294967296"
  using unat_word_ariths(1) [of x y] by simp

lemma unat_ucast_16_32: "unat (ucast (w :: 16 word) :: 32 word) = unat w"
proof -
  have "uint (ucast w :: 32 word) = uint w"
    by (rule uint_up_ucast) (simp add: is_up)
  then show ?thesis by (simp only: unat_eq_nat_uint)
qed

lemma unat_sum_ucast:
  "unat (sum_list (map (\<lambda>p. ucast (f p :: 16 word)) ps) :: 32 word) =
     sum_list (map (\<lambda>p. unat (f p)) ps) mod 4294967296"
proof (induction ps)
  case Nil
  show ?case by simp
next
  case (Cons p ps)
  let ?rest = "sum_list (map (\<lambda>p. ucast (f p)) ps) :: 32 word"
  have "unat (ucast (f p) + ?rest) = (unat (f p) + unat ?rest) mod 4294967296"
    by (simp only: unat_add_32 unat_ucast_16_32)
  also have "\<dots> = (unat (f p) + sum_list (map (\<lambda>p. unat (f p)) ps) mod 4294967296) mod 4294967296"
    by (simp only: Cons.IH)
  also have "\<dots> = (unat (f p) + sum_list (map (\<lambda>p. unat (f p)) ps)) mod 4294967296"
    by (rule mod_add_right_eq)
  finally show ?case by (simp only: list.map sum_list.Cons)
qed

lemma uint_tile_origin:
  assumes "0 \<le> k" "int g * k \<le> 65536" "x < g"
  shows "uint (word_of_int (int x * k) :: 16 word) = int x * k"
proof -
  have "int x * k \<le> (int g - 1) * k" using assms by (intro mult_right_mono) auto
  also have "\<dots> = int g * k - k" by (simp add: algebra_simps)
  finally have "int x * k < 65536 \<or> k = 0" using assms by auto
  then have "int x * k < 65536" by auto
  moreover have "0 \<le> int x * k" using assms by simp
  ultimately show ?thesis by (subst uint_word_of_int) simp
qed

lemma uint_tile_origin_words:
  assumes "0 \<le> kx" "0 \<le> ky" "int gx * kx \<le> 65536" "int gy * ky \<le> 65536"
    and "fst p < gx" "snd p < gy"
  shows "(uint (fst (tile_origin_words kx ky p)), uint (snd (tile_origin_words kx ky p))) =
         (int (fst p) * kx, int (snd p) * ky)"
  unfolding tile_origin_words_def fst_conv snd_conv
  using uint_tile_origin [OF assms(1,3,5)] uint_tile_origin [OF assms(2,4,6)] by (simp only:)

text \<open>The result of the compaction, with the origins and the sum as stored.\<close>

lemma compact_blocks_count:
  "active_block_count (compact_blocks act gx gy kx ky cpu0) =
     length (filter (tile_active act gx) (tile_scan gx gy))"
  by (simp add: compact_blocks_def fold_compact_count)

lemma compact_blocks_tiles:
  "active_tiles (active_block_count (compact_blocks act gx gy kx ky cpu0))
       (block_coordinates_cpu (compact_blocks act gx gy kx ky cpu0)) =
     map (tile_origin_words kx ky) (filter (tile_active act gx) (tile_scan gx gy))"
  using fold_compact_tiles [of "\<lparr>active_block_count = 0, pixel_to_inpaint_count = 0,
      block_coordinates_cpu = cpu0\<rparr>" act gx "tile_scan gx gy" kx ky]
  by (simp add: compact_blocks_def fold_compact_count active_tiles_0)

lemma compact_blocks_pixels:
  "pixel_to_inpaint_count (compact_blocks act gx gy kx ky cpu0) =
     sum_list (map (\<lambda>p. ucast (act (fst p + snd p * gx)))
       (filter (tile_active act gx) (tile_scan gx gy)))"
  by (simp add: compact_blocks_def fold_compact_pixels)

text \<open>A row of tiles of which one is active.\<close>

lemma filter_upt_eq: "k < n \<Longrightarrow> filter (\<lambda>x. x = k) [0..<n] = [k]"
proof (induction n)
  case 0
  then show ?case by simp
next
  case (Suc n)
  show ?case
  proof (cases "k = n")
    case True
    have "filter (\<lambda>x. x = n) [0..<n] = []" by (simp add: filter_empty_conv)
    with True show ?thesis by simp
  next
    case False
    with Suc show ?thesis by simp
  qed
qed

lemma tile_scan_row: "tile_scan gx (Suc 0) = map (\<lambda>x. (x, 0)) [0..<gx]"
  by (simp add: tile_scan_def)

section \<open>The host loop\<close>

lemma no_flag_set:
  "(filter ((\<lambda>f. f \<noteq> 0) \<circ> g) [0..<n] = []) = (\<forall>j<n. g j = 0)"
  by (auto simp: filter_empty_conv)

lemma loop_exit:
  "\<not> i < m \<Longrightarrow> inpaint_iterations launch m n i lc dev tr = Inr (i, dev, tr)"
  by (subst inpaint_iterations.simps) simp

lemma loop_overflow_sub:
  "i < m \<Longrightarrow> \<not> int_ok (i - lc) \<Longrightarrow>
   inpaint_iterations launch m n i lc dev tr = Inl SignedOverflow"
  by (subst inpaint_iterations.simps) simp

lemma loop_overflow_add:
  "i < m \<Longrightarrow> \<not> int_ok (i + 4) \<Longrightarrow>
   inpaint_iterations launch m n i lc dev tr = Inl SignedOverflow"
  by (subst inpaint_iterations.simps) (simp add: Let_def kIterationsPerKernelCall_def)

lemma loop_break:
  "i < m \<Longrightarrow> int_ok (i - lc) \<Longrightarrow> int_ok (i + 4) \<Longrightarrow> 25 \<le> i - lc \<Longrightarrow>
   (\<forall>j<n. max_change (launch True n dev) j = 0) \<Longrightarrow>
   inpaint_iterations launch m n i lc dev tr =
     Inr (i + 4, launch True n dev, tr @ [launch_entry launch n i lc dev])"
  by (subst inpaint_iterations.simps)
     (simp add: Let_def launch_entry_def kIterationsPerKernelCall_def no_flag_set)

lemma loop_continue_checked:
  "i < m \<Longrightarrow> int_ok (i - lc) \<Longrightarrow> int_ok (i + 4) \<Longrightarrow> 25 \<le> i - lc \<Longrightarrow>
   \<not> (\<forall>j<n. max_change (launch True n dev) j = 0) \<Longrightarrow>
   inpaint_iterations launch m n i lc dev tr =
     inpaint_iterations launch m n (i + 4) i (launch True n dev)
       (tr @ [launch_entry launch n i lc dev])"
  by (subst inpaint_iterations.simps)
     (auto simp: Let_def launch_entry_def kIterationsPerKernelCall_def no_flag_set)

lemma loop_continue_unchecked:
  "i < m \<Longrightarrow> int_ok (i - lc) \<Longrightarrow> int_ok (i + 4) \<Longrightarrow> \<not> 25 \<le> i - lc \<Longrightarrow>
   inpaint_iterations launch m n i lc dev tr =
     inpaint_iterations launch m n (i + 4) lc (launch False n dev)
       (tr @ [launch_entry launch n i lc dev])"
  by (subst inpaint_iterations.simps)
     (simp add: Let_def launch_entry_def kIterationsPerKernelCall_def no_flag_set)

text \<open>The four ways in which a call of the loop returns.\<close>

lemma loop_cases:
  assumes "inpaint_iterations launch m n i lc dev tr = Inr res"
    and "\<not> i < m \<Longrightarrow> res = (i, dev, tr) \<Longrightarrow> P"
    and "i < m \<Longrightarrow> int_ok (i + 4) \<Longrightarrow> 25 \<le> i - lc \<Longrightarrow>
         (\<forall>j<n. max_change (launch True n dev) j = 0) \<Longrightarrow>
         res = (i + 4, launch True n dev, tr @ [launch_entry launch n i lc dev]) \<Longrightarrow> P"
    and "i < m \<Longrightarrow> int_ok (i + 4) \<Longrightarrow> 25 \<le> i - lc \<Longrightarrow>
         \<not> (\<forall>j<n. max_change (launch True n dev) j = 0) \<Longrightarrow>
         inpaint_iterations launch m n (i + 4) i (launch True n dev)
           (tr @ [launch_entry launch n i lc dev]) = Inr res \<Longrightarrow> P"
    and "i < m \<Longrightarrow> int_ok (i + 4) \<Longrightarrow> \<not> 25 \<le> i - lc \<Longrightarrow>
         inpaint_iterations launch m n (i + 4) lc (launch False n dev)
           (tr @ [launch_entry launch n i lc dev]) = Inr res \<Longrightarrow> P"
  shows P
proof (cases "i < m")
  case False
  with assms(1,2) show ?thesis by (simp add: loop_exit)
next
  case lt: True
  have sub: "int_ok (i - lc)"
    using assms(1) lt loop_overflow_sub [of i m lc launch n dev tr] by auto
  have add: "int_ok (i + 4)"
    using assms(1) lt loop_overflow_add [of i m launch n lc dev tr] by auto
  show ?thesis
  proof (cases "25 \<le> i - lc")
    case False
    with assms(1,5) lt sub add show ?thesis by (simp add: loop_continue_unchecked)
  next
    case chk: True
    show ?thesis
    proof (cases "\<forall>j<n. max_change (launch True n dev) j = 0")
      case True
      with assms(1,3) lt chk sub add show ?thesis by (simp add: loop_break)
    next
      case False
      with assms(1,4) lt chk sub add show ?thesis by (simp add: loop_continue_checked)
    qed
  qed
qed

lemma loop_return_bound:
  "inpaint_iterations launch m n i lc dev tr = Inr res \<Longrightarrow> 4 dvd i \<Longrightarrow>
   4 dvd fst res \<and> i \<le> fst res \<and> fst res \<le> max i (round_up m 4)"
proof (induction "nat (m - i)" arbitrary: i lc dev tr rule: less_induct)
  case less
  have step: "i < m \<Longrightarrow> i + 4 \<le> round_up m 4"
    using \<open>4 dvd i\<close> unfolding round_up_def by presburger
  have d: "4 dvd i + 4" using \<open>4 dvd i\<close> by presburger
  from less.prems(1) show ?case
  proof (rule loop_cases)
    assume "res = (i, dev, tr)"
    then show ?thesis using \<open>4 dvd i\<close> by simp
  next
    assume "i < m" "res = (i + 4, launch True n dev, tr @ [launch_entry launch n i lc dev])"
    then show ?thesis using step d by simp
  next
    assume a: "i < m" and r: "inpaint_iterations launch m n (i + 4) i (launch True n dev)
           (tr @ [launch_entry launch n i lc dev]) = Inr res"
    from a less.hyps [OF _ r d] step [OF a] show ?thesis by auto
  next
    assume a: "i < m" and r: "inpaint_iterations launch m n (i + 4) lc (launch False n dev)
           (tr @ [launch_entry launch n i lc dev]) = Inr res"
    from a less.hyps [OF _ r d] step [OF a] show ?thesis by auto
  qed
qed

text \<open>A property of the launch records that every step of the loop keeps.\<close>

lemma loop_trace_invariant:
  assumes "\<And>i lc dev. I i lc dev \<Longrightarrow> i < m \<Longrightarrow> Q (launch_entry launch n i lc dev)"
    and "\<And>i lc dev. I i lc dev \<Longrightarrow> i < m \<Longrightarrow> 25 \<le> i - lc \<Longrightarrow> I (i + 4) i (launch True n dev)"
    and "\<And>i lc dev. I i lc dev \<Longrightarrow> i < m \<Longrightarrow> \<not> 25 \<le> i - lc \<Longrightarrow> I (i + 4) lc (launch False n dev)"
  shows "inpaint_iterations launch m n i lc dev tr = Inr res \<Longrightarrow> I i lc dev \<Longrightarrow> list_all Q tr \<Longrightarrow>
         list_all Q (snd (snd res))"
proof (induction "nat (m - i)" arbitrary: i lc dev tr rule: less_induct)
  case less
  have e: "i < m \<Longrightarrow> list_all Q (tr @ [launch_entry launch n i lc dev])"
    using less.prems assms(1) by simp
  from less.prems(1) show ?case
  proof (rule loop_cases)
    assume "res = (i, dev, tr)"
    then show ?thesis using less.prems by simp
  next
    assume "i < m" "res = (i + 4, launch True n dev, tr @ [launch_entry launch n i lc dev])"
    then show ?thesis using e by simp
  next
    assume a: "i < m" "25 \<le> i - lc"
      and r: "inpaint_iterations launch m n (i + 4) i (launch True n dev)
           (tr @ [launch_entry launch n i lc dev]) = Inr res"
    from a less.prems(2) have "I (i + 4) i (launch True n dev)" by (intro assms(2))
    with less.hyps [OF _ r] a e show ?thesis by simp
  next
    assume a: "i < m" "\<not> 25 \<le> i - lc"
      and r: "inpaint_iterations launch m n (i + 4) lc (launch False n dev)
           (tr @ [launch_entry launch n i lc dev]) = Inr res"
    from a less.prems(2) have "I (i + 4) lc (launch False n dev)" by (intro assms(3))
    with less.hyps [OF _ r] a e show ?thesis by simp
  qed
qed

lemma schedule_check: "schedule i lc \<Longrightarrow> (25 \<le> i - lc) = (i mod 28 = 0)"
  unfolding schedule_def by presburger

lemma schedule_step_checked: "schedule i lc \<Longrightarrow> 25 \<le> i - lc \<Longrightarrow> schedule (i + 4) i"
  unfolding schedule_def by presburger

lemma schedule_step_unchecked: "schedule i lc \<Longrightarrow> \<not> 25 \<le> i - lc \<Longrightarrow> schedule (i + 4) lc"
  unfolding schedule_def by presburger

lemma schedule_start: "schedule 0 (- 9999)"
  by (simp add: schedule_def)

lemma schedule_int_ok: "schedule i lc \<Longrightarrow> i \<le> 2147483643 \<Longrightarrow> int_ok (i - lc) \<and> int_ok (i + 4)"
  unfolding schedule_def int_ok_def by presburger

lemma loop_schedule:
  "inpaint_iterations launch m n 0 (- 9999) dev [] = Inr res \<Longrightarrow>
   list_all (\<lambda>r. lr_check_convergence r = (lr_iteration r mod 28 = 0)) (snd (snd res))"
  by (erule loop_trace_invariant [where I = "\<lambda>i lc dev. schedule i lc", rotated 3])
     (simp_all add: launch_entry_def schedule_check schedule_step_checked schedule_step_unchecked
        schedule_start)

lemma loop_same_tiles:
  assumes "\<And>c k d. block_coordinates (launch c k d) = block_coordinates d"
    and "inpaint_iterations launch m n 0 (- 9999) dev [] = Inr res"
  shows "list_all (\<lambda>r. lr_grid_dim_active r = n \<and> lr_tiles r = active_tiles n (block_coordinates dev))
     (snd (snd res))"
  using assms(2)
  by (rule loop_trace_invariant [where I = "\<lambda>i lc d. block_coordinates d = block_coordinates dev",
        rotated 3])
     (simp_all add: launch_entry_def assms(1))

lemma loop_trace_prefix:
  "inpaint_iterations launch m n i lc dev tr = Inr res \<Longrightarrow> \<exists>tr'. snd (snd res) = tr @ tr'"
proof (induction "nat (m - i)" arbitrary: i lc dev tr rule: less_induct)
  case less
  from less.prems(1) show ?case
  proof (rule loop_cases)
    assume "res = (i, dev, tr)"
    then show ?thesis by simp
  next
    assume "res = (i + 4, launch True n dev, tr @ [launch_entry launch n i lc dev])"
    then show ?thesis by simp
  next
    assume a: "i < m" and r: "inpaint_iterations launch m n (i + 4) i (launch True n dev)
           (tr @ [launch_entry launch n i lc dev]) = Inr res"
    from a less.hyps [OF _ r] show ?thesis by auto
  next
    assume a: "i < m" and r: "inpaint_iterations launch m n (i + 4) lc (launch False n dev)
           (tr @ [launch_entry launch n i lc dev]) = Inr res"
    from a less.hyps [OF _ r] show ?thesis by auto
  qed
qed

text \<open>The device memory after the loop, from a property that every launch keeps.\<close>

lemma loop_device_invariant:
  assumes "\<And>c d. I d \<Longrightarrow> I (launch c n d)"
  shows "inpaint_iterations launch m n i lc dev tr = Inr res \<Longrightarrow> I dev \<Longrightarrow> I (fst (snd res))"
proof (induction "nat (m - i)" arbitrary: i lc dev tr rule: less_induct)
  case less
  from less.prems(1) show ?case
  proof (rule loop_cases)
    assume "res = (i, dev, tr)"
    then show ?thesis using less.prems by simp
  next
    assume "res = (i + 4, launch True n dev, tr @ [launch_entry launch n i lc dev])"
    then show ?thesis using less.prems assms by simp
  next
    assume a: "i < m" and r: "inpaint_iterations launch m n (i + 4) i (launch True n dev)
           (tr @ [launch_entry launch n i lc dev]) = Inr res"
    from a less.hyps [OF _ r] less.prems(2) assms show ?thesis by simp
  next
    assume a: "i < m" and r: "inpaint_iterations launch m n (i + 4) lc (launch False n dev)
           (tr @ [launch_entry launch n i lc dev]) = Inr res"
    from a less.hyps [OF _ r] less.prems(2) assms show ?thesis by simp
  qed
qed

text \<open>
  The loop returns when the budget is at most \<open>INT_MAX - 3\<close>: the counter then stays in the
  range of \<^verbatim>\<open>int\<close>.
\<close>

lemma loop_returns:
  "schedule i lc \<Longrightarrow> m \<le> 2147483644 \<Longrightarrow>
   \<exists>res. inpaint_iterations launch m n i lc dev tr = Inr res"
proof (induction "nat (m - i)" arbitrary: i lc dev tr rule: less_induct)
  case less
  show ?case
  proof (cases "i < m")
    case False
    then show ?thesis by (simp add: loop_exit)
  next
    case lt: True
    with less.prems have ok: "int_ok (i - lc)" "int_ok (i + 4)"
      using schedule_int_ok [of i lc] by simp_all
    show ?thesis
    proof (cases "25 \<le> i - lc")
      case False
      with less.prems(1) have "schedule (i + 4) lc" by (rule schedule_step_unchecked)
      with less.hyps [of "i + 4" lc "launch False n dev" "tr @ [launch_entry launch n i lc dev]"]
        less.prems(2) lt False ok
      show ?thesis by (simp add: loop_continue_unchecked)
    next
      case chk: True
      with less.prems(1) have s: "schedule (i + 4) i" by (rule schedule_step_checked)
      show ?thesis
      proof (cases "\<forall>j<n. max_change (launch True n dev) j = 0")
        case True
        with lt chk ok show ?thesis by (simp add: loop_break)
      next
        case False
        with less.hyps [of "i + 4" i "launch True n dev" "tr @ [launch_entry launch n i lc dev]"]
          less.prems(2) lt chk ok s
        show ?thesis by (simp add: loop_continue_checked)
      qed
    qed
  qed
qed

lemma loop_first_launch:
  assumes "0 < m" "inpaint_iterations launch m n 0 (- 9999) dev [] = Inr res"
  shows "\<exists>tr'. snd (snd res) = launch_entry launch n 0 (- 9999) dev # tr'"
proof (cases "\<forall>j<n. max_change (launch True n dev) j = 0")
  case True
  with assms show ?thesis by (auto simp: loop_break int_ok_def)
next
  case False
  with assms have "inpaint_iterations launch m n 4 0 (launch True n dev)
      [launch_entry launch n 0 (- 9999) dev] = Inr res"
    by (simp add: loop_continue_checked int_ok_def)
  from loop_trace_prefix [OF this] show ?thesis by simp
qed

lemma loop_first_converged:
  assumes "0 < m" "\<forall>j<n. max_change (launch True n dev) j = 0"
  shows "inpaint_iterations launch m n 0 (- 9999) dev [] =
           Inr (4, launch True n dev, [launch_entry launch n 0 (- 9999) dev])"
  using assms by (simp add: loop_break int_ok_def)

text \<open>The last launch below the budget, when it checks convergence.\<close>

lemma loop_last_checked:
  "i < m \<Longrightarrow> m \<le> i + 4 \<Longrightarrow> int_ok (i - lc) \<Longrightarrow> int_ok (i + 4) \<Longrightarrow> 25 \<le> i - lc \<Longrightarrow>
   inpaint_iterations launch m n i lc dev tr =
     Inr (i + 4, launch True n dev, tr @ [launch_entry launch n i lc dev])"
  by (cases "\<forall>j<n. max_change (launch True n dev) j = 0")
     (simp_all add: loop_break loop_continue_checked loop_exit)

section \<open>The initialisation kernel\<close>

lemma u32_id: "0 \<le> i \<Longrightarrow> i < 4294967296 \<Longrightarrow> u32 i = i"
  by (simp add: u32_def)

lemma u32_range: "0 \<le> u32 i \<and> u32 i < 4294967296"
  by (simp add: u32_def)

lemma init_thread_write:
  assumes "(p, v) \<in> set (fst (init_thread bsx bsy s tex w h blk t))"
  shows "v = depth_input s tex (snd p) (fst p) \<and> 0 \<le> snd p \<and> snd p < u32 w \<and>
         0 \<le> fst p \<and> fst p < u32 h"
  using assms u32_range
  by (auto simp: init_thread_def Let_def split: prod.splits if_splits)

lemma init_thread_active:
  assumes "snd (init_thread bsx bsy s tex w h blk t)"
  shows "\<exists>x y. 0 \<le> x \<and> x < u32 w \<and> 0 \<le> y \<and> y < u32 h \<and> thread_is_active s tex x y"
  using assms u32_range
  by (auto simp: init_thread_def Let_def split: prod.splits if_splits)

lemma init_thread_covers:
  assumes "0 \<le> x" "x < w" "0 \<le> y" "y < h" "w < 4294967296" "h < 4294967296"
    and "8 < bsx" "8 < bsy"
  shows "fst (init_thread bsx bsy s tex w h (x div (bsx - 8), y div (bsy - 8))
                (x mod (bsx - 8) + 4, y mod (bsy - 8) + 4)) =
         [((y, x), depth_input s tex x y)]"
proof -
  have x: "x div (bsx - 8) * (bsx - 8) + x mod (bsx - 8) = x"
    by (rule div_mult_mod_eq)
  have y: "y div (bsy - 8) * (bsy - 8) + y mod (bsy - 8) = y"
    by (rule div_mult_mod_eq)
  have mx: "0 \<le> x mod (bsx - 8)" "x mod (bsx - 8) < bsx - 8" using assms by simp_all
  have my: "0 \<le> y mod (bsy - 8)" "y mod (bsy - 8) < bsy - 8" using assms by simp_all
  have ux: "u32 x = x" "u32 w = w" using assms by (simp_all add: u32_id)
  have uy: "u32 y = y" "u32 h = h" using assms by (simp_all add: u32_id)
  show ?thesis
    using assms mx my
    by (simp add: init_thread_def Let_def kIterationsPerKernelCall_def x y ux uy)
qed

lemma init_block_output:
  "depth_map_output (init_block bsx bsy gx s tex w h blk dev) =
     apply_writes (init_writes bsx bsy s tex w h blk) (depth_map_output dev)"
  by (simp add: init_block_def Let_def init_writes_def)

lemma init_kernel_output:
  "depth_map_output (fold (init_block bsx bsy gx s tex w h) bs dev) =
     apply_writes (concat (map (init_writes bsx bsy s tex w h) bs)) (depth_map_output dev)"
  by (induction bs arbitrary: dev) (simp_all add: init_block_output apply_writes_append)


lemma init_writes_value:
  "(p, v) \<in> set (concat (map (init_writes bsx bsy s tex w h) bs)) \<Longrightarrow>
   v = depth_input s tex (snd p) (fst p)"
  by (auto simp: init_writes_def dest: init_thread_write)

lemma init_kernel_pixel:
  assumes "0 \<le> x" "x < w" "0 \<le> y" "y < h" "w < 4294967296" "h < 4294967296"
    and "8 < bsx" "8 < bsy"
    and "(x div (bsx - 8), y div (bsy - 8)) \<in> set bs"
  shows "depth_map_output (fold (init_block bsx bsy gx s tex w h) bs dev) (y, x) =
         depth_input s tex x y"
proof -
  let ?t = "(x mod (bsx - 8) + 4, y mod (bsy - 8) + 4)"
  let ?b = "(x div (bsx - 8), y div (bsy - 8))"
  have "0 \<le> x mod (bsx - 8)" "x mod (bsx - 8) < bsx - 8" "0 \<le> y mod (bsy - 8)"
    "y mod (bsy - 8) < bsy - 8"
    using assms by simp_all
  then have t: "?t \<in> set (block_threads bsx bsy)"
    by (simp add: block_threads_iff)
  have "((y, x), depth_input s tex x y) \<in> set (fst (init_thread bsx bsy s tex w h ?b ?t))"
    using init_thread_covers [OF assms(1-8), of s tex] by simp
  with t have "((y, x), depth_input s tex x y) \<in> set (init_writes bsx bsy s tex w h ?b)"
    unfolding init_writes_def by (simp only: set_concat set_map) blast
  with assms(9) have "((y, x), depth_input s tex x y) \<in>
      set (concat (map (init_writes bsx bsy s tex w h) bs))"
    by auto
  then have "apply_writes (concat (map (init_writes bsx bsy s tex w h) bs)) (depth_map_output dev) (y, x) =
      depth_input s tex x y"
  proof (rule apply_writes_functional)
    fix v'
    assume "((y, x), v') \<in> set (concat (map (init_writes bsx bsy s tex w h) bs))"
    from init_writes_value [OF this] show "v' = depth_input s tex x y" by simp
  qed
  then show ?thesis by (simp add: init_kernel_output)
qed

text \<open>The count of a block is zero when no thread is active.\<close>

lemma init_block_count:
  assumes "\<forall>x y. 0 \<le> x \<and> x < u32 w \<and> 0 \<le> y \<and> y < u32 h \<longrightarrow> \<not> thread_is_active s tex x y"
  shows "block_coordinates (init_block bsx bsy gx s tex w h blk dev) =
         (block_coordinates dev)(nat (fst blk + snd blk * gx) := 0)"
proof -
  have "\<not> snd (init_thread bsx bsy s tex w h blk t)" for t
    using assms init_thread_active by blast
  then have "sum_list (map (\<lambda>r. if snd r then (1::int) else 0)
      (map (init_thread bsx bsy s tex w h blk) ts)) = 0" for ts
    by (induction ts) simp_all
  then show ?thesis by (simp add: init_block_def Let_def)
qed

lemma init_kernel_counts:
  assumes "\<forall>x y. 0 \<le> x \<and> x < u32 w \<and> 0 \<le> y \<and> y < u32 h \<longrightarrow> \<not> thread_is_active s tex x y"
    and "blk \<in> set bs"
  shows "block_coordinates (fold (init_block bsx bsy gx s tex w h) bs dev)
           (nat (fst blk + snd blk * gx)) = 0"
proof -
  have keep: "block_coordinates dev k = 0 \<Longrightarrow>
      block_coordinates (fold (init_block bsx bsy gx s tex w h) bs dev) k = 0" for bs dev k
    by (induction bs arbitrary: dev) (simp_all add: init_block_count [OF assms(1)])
  from assms(2) show ?thesis
  proof (induction bs arbitrary: dev)
    case Nil
    then show ?case by simp
  next
    case (Cons b bs)
    show ?case
    proof (cases "blk = b")
      case True
      then show ?thesis by (simp add: keep init_block_count [OF assms(1)])
    next
      case False
      with Cons show ?thesis by simp
    qed
  qed
qed

lemma GetBlockCount_covers:
  assumes "0 \<le> x" "x < n" "0 < k"
  shows "0 \<le> x div k \<and> x div k < GetBlockCount n k"
proof -
  have "x div k \<le> (n - 1) div k" using assms by (intro zdiv_mono1) auto
  also have "(n - 1) div k < (n - 1 + k) div k" using assms by simp
  finally have "x div k < GetBlockCount n k" by (simp add: GetBlockCount_def algebra_simps)
  moreover have "0 \<le> x div k" using assms by (simp add: pos_imp_zdiv_nonneg_iff)
  ultimately show ?thesis by simp
qed

lemma initialize_output:
  assumes "0 \<le> x" "x < w" "0 \<le> y" "y < h" "w < 4294967296" "h < 4294967296"
  shows "depth_map_output (fst (initialize s tex w h dev cpu0)) (y, x) = depth_input s tex x y"
proof -
  have "(x div (32 - 8), y div (32 - 8)) \<in> set (grid_blocks (GetBlockCount w 24) (GetBlockCount h 24))"
    using GetBlockCount_covers [of x w 24] GetBlockCount_covers [of y h 24] assms
    by (simp add: grid_blocks_iff)
  from init_kernel_pixel [OF assms _ _ this, of "GetBlockCount w 24" s tex dev]
  show ?thesis
    by (simp add: initialize_def Let_def ConvolutionInpaintingInitializeVariablesKernel_def
        kBlockWidth_def kBlockHeight_def kIterationsPerKernelCall_def)
qed

lemma initialize_no_holes:
  assumes "0 \<le> w" "w < 4294967296" "0 \<le> h" "h < 4294967296"
    and "\<forall>x y. 0 \<le> x \<and> x < w \<and> 0 \<le> y \<and> y < h \<longrightarrow> \<not> thread_is_active s tex x y"
  shows "active_block_count (snd (initialize s tex w h dev cpu0)) = 0 \<and>
         pixel_to_inpaint_count (snd (initialize s tex w h dev cpu0)) = 0"
proof -
  let ?gx = "GetBlockCount w 24" and ?gy = "GetBlockCount h 24"
  let ?dev1 = "fold (init_block 32 32 ?gx s tex w h) (grid_blocks ?gx ?gy) dev"
  have u: "u32 w = w" "u32 h = h" using assms by (simp_all add: u32_id)
  have nh: "\<forall>x y. 0 \<le> x \<and> x < u32 w \<and> 0 \<le> y \<and> y < u32 h \<longrightarrow> \<not> thread_is_active s tex x y"
    using assms(5) by (simp add: u)
  have "\<not> tile_active (block_coordinates ?dev1) (nat ?gx) p" if "p \<in> set (tile_scan (nat ?gx) (nat ?gy))" for p
  proof -
    from that have p: "fst p < nat ?gx" "snd p < nat ?gy" by (simp_all add: tile_scan_iff)
    then have "int (fst p) < ?gx" "int (snd p) < ?gy" by linarith+
    then have "(int (fst p), int (snd p)) \<in> set (grid_blocks ?gx ?gy)"
      by (simp add: grid_blocks_iff)
    from init_kernel_counts [OF nh this, of 32 32 ?gx dev]
    have "block_coordinates ?dev1 (nat (int (fst p) + int (snd p) * ?gx)) = 0" by simp
    moreover have "nat (int (fst p) + int (snd p) * ?gx) = fst p + snd p * nat ?gx"
      using p by (simp add: nat_add_distrib nat_mult_distrib)
    ultimately show ?thesis by (simp add: tile_active_def)
  qed
  then have "filter (tile_active (block_coordinates ?dev1) (nat ?gx)) (tile_scan (nat ?gx) (nat ?gy)) = []"
    by (simp add: filter_empty_conv)
  then show ?thesis
    by (simp add: initialize_def Let_def ConvolutionInpaintingInitializeVariablesKernel_def
        kBlockWidth_def kBlockHeight_def kIterationsPerKernelCall_def compact_blocks_def
        fold_compact_count fold_compact_pixels)
qed

section \<open>The host function\<close>

lemma launch_diffusion_coordinates [simp]:
  "block_coordinates (launch_diffusion uw tex g thr w h chk n dev) = block_coordinates dev"
  by (simp add: launch_diffusion_def)

lemma loop_iteration_numbers:
  "inpaint_iterations launch m n i lc dev tr = Inr res \<Longrightarrow>
   i = 4 * int (length tr) \<Longrightarrow> (\<forall>k<length tr. lr_iteration (tr ! k) = 4 * int k) \<Longrightarrow>
   (\<forall>k<length (snd (snd res)). lr_iteration (snd (snd res) ! k) = 4 * int k)"
proof (induction "nat (m - i)" arbitrary: i lc dev tr rule: less_induct)
  case less
  let ?tr = "tr @ [launch_entry launch n i lc dev]"
  have e: "\<forall>k<length ?tr. lr_iteration (?tr ! k) = 4 * int k"
    using less.prems by (auto simp: nth_append launch_entry_def less_Suc_eq)
  have l: "i + 4 = 4 * int (length ?tr)" using less.prems by simp
  from less.prems(1) show ?case
  proof (rule loop_cases)
    assume "res = (i, dev, tr)"
    then show ?thesis using less.prems by simp
  next
    assume "res = (i + 4, launch True n dev, ?tr)"
    then show ?thesis using e by simp
  next
    assume a: "i < m" and r: "inpaint_iterations launch m n (i + 4) i (launch True n dev) ?tr = Inr res"
    from a show ?thesis by (intro less.hyps [OF _ r l e]) simp
  next
    assume a: "i < m" and r: "inpaint_iterations launch m n (i + 4) lc (launch False n dev) ?tr = Inr res"
    from a show ?thesis by (intro less.hyps [OF _ r l e]) simp
  qed
qed

lemma loop_iterations_below:
  "inpaint_iterations launch m n 0 (- 9999) dev [] = Inr res \<Longrightarrow>
   list_all (\<lambda>r. lr_iteration r < m) (snd (snd res))"
  by (erule loop_trace_invariant [where I = "\<lambda>i lc dev. True", rotated 3])
     (simp_all add: launch_entry_def)

text \<open>Below the budget the loop makes a launch.\<close>

lemma loop_trace_grows:
  assumes "inpaint_iterations launch m n i lc dev tr = Inr res" "i < m"
  shows "\<exists>ext. snd (snd res) = tr @ launch_entry launch n i lc dev # ext"
  using assms(1)
proof (rule loop_cases)
  assume "\<not> i < m"
  with assms(2) show ?thesis by simp
next
  assume "res = (i + 4, launch True n dev, tr @ [launch_entry launch n i lc dev])"
  then show ?thesis by simp
next
  assume "inpaint_iterations launch m n (i + 4) i (launch True n dev)
           (tr @ [launch_entry launch n i lc dev]) = Inr res"
  from loop_trace_prefix [OF this] show ?thesis by simp
next
  assume "inpaint_iterations launch m n (i + 4) lc (launch False n dev)
           (tr @ [launch_entry launch n i lc dev]) = Inr res"
  from loop_trace_prefix [OF this] show ?thesis by simp
qed

text \<open>
  How the downloaded flags steer the loop: a launch that finds no flag set is the last one,
  and the call returns four more than its counter; after any other launch the loop goes on
  while the counter is below the budget.
\<close>

lemma loop_control:
  "inpaint_iterations launch m n i lc dev tr = Inr res \<Longrightarrow>
   \<exists>ext. snd (snd res) = tr @ ext \<and>
     (\<forall>k<length ext. converged_entry (ext ! k) \<longrightarrow>
        Suc k = length ext \<and> fst res = lr_iteration (ext ! k) + 4) \<and>
     (\<forall>k<length ext. \<not> converged_entry (ext ! k) \<and> lr_iteration (ext ! k) + 4 < m \<longrightarrow>
        Suc k < length ext)"
proof (induction "nat (m - i)" arbitrary: i lc dev tr rule: less_induct)
  case less
  let ?e = "launch_entry launch n i lc dev"
  have step: ?case
    if a: "i < m" and n: "\<not> converged_entry ?e"
      and r: "inpaint_iterations launch m n (i + 4) lc' dev' (tr @ [?e]) = Inr res" for lc' dev'
  proof -
    from a less.hyps [OF _ r] obtain ext where ext: "snd (snd res) = (tr @ [?e]) @ ext"
      and c: "\<forall>k<length ext. converged_entry (ext ! k) \<longrightarrow>
        Suc k = length ext \<and> fst res = lr_iteration (ext ! k) + 4"
      and g: "\<forall>k<length ext. \<not> converged_entry (ext ! k) \<and> lr_iteration (ext ! k) + 4 < m \<longrightarrow>
        Suc k < length ext"
      by auto
    have first: "ext \<noteq> []" if "i + 4 < m"
      using loop_trace_grows [OF r that] ext by auto
    have "snd (snd res) = tr @ (?e # ext)" using ext by simp
    moreover have "\<forall>k<length (?e # ext). converged_entry ((?e # ext) ! k) \<longrightarrow>
        Suc k = length (?e # ext) \<and> fst res = lr_iteration ((?e # ext) ! k) + 4"
      using c n by (auto simp: nth_Cons split: nat.splits)
    moreover have "\<forall>k<length (?e # ext).
        \<not> converged_entry ((?e # ext) ! k) \<and> lr_iteration ((?e # ext) ! k) + 4 < m \<longrightarrow>
        Suc k < length (?e # ext)"
      using g first by (auto simp: nth_Cons launch_entry_def split: nat.splits)
    ultimately show ?thesis by blast
  qed
  from less.prems(1) show ?case
  proof (rule loop_cases)
    assume "res = (i, dev, tr)"
    then show ?thesis by simp
  next
    assume "res = (i + 4, launch True n dev, tr @ [?e])"
      and "25 \<le> i - lc" "\<forall>j<n. max_change (launch True n dev) j = 0"
    then show ?thesis
      by (intro exI [of _ "[?e]"]) (simp add: launch_entry_def converged_entry_def)
  next
    assume a: "i < m" "\<not> (\<forall>j<n. max_change (launch True n dev) j = 0)" "25 \<le> i - lc"
      and r: "inpaint_iterations launch m n (i + 4) i (launch True n dev) (tr @ [?e]) = Inr res"
    from a have "\<not> converged_entry ?e" by (auto simp: launch_entry_def converged_entry_def)
    with a(1) r show ?thesis by (intro step)
  next
    assume a: "i < m" "\<not> 25 \<le> i - lc"
      and r: "inpaint_iterations launch m n (i + 4) lc (launch False n dev) (tr @ [?e]) = Inr res"
    from a have "\<not> converged_entry ?e" by (simp add: launch_entry_def converged_entry_def)
    with a(1) r show ?thesis by (intro step)
  qed
qed

text \<open>The two ways in which the host function returns.\<close>

lemma run_idle:
  "active_block_count (snd (initialize s tex w h dev cpu0)) = 0 \<Longrightarrow>
   InpaintDepthMapWithConvolutionCUDA uw m thr s g tex w h dev cpu0 =
     Inr \<lparr>iterations_returned = 0,
          pixel_count = pixel_to_inpaint_count (snd (initialize s tex w h dev cpu0)),
          device_after = fst (initialize s tex w h dev cpu0), launches = []\<rparr>"
  by (simp add: InpaintDepthMapWithConvolutionCUDA_def case_prod_beta)

lemma run_loop:
  "active_block_count (snd (initialize s tex w h dev cpu0)) \<noteq> 0 \<Longrightarrow>
   inpaint_iterations (launch_diffusion uw tex g thr w h) m
     (active_block_count (snd (initialize s tex w h dev cpu0))) 0 (- 9999)
     (upload_tiles (snd (initialize s tex w h dev cpu0)) (fst (initialize s tex w h dev cpu0))) []
     = Inr res \<Longrightarrow>
   InpaintDepthMapWithConvolutionCUDA uw m thr s g tex w h dev cpu0 =
     Inr \<lparr>iterations_returned = fst res,
          pixel_count = pixel_to_inpaint_count (snd (initialize s tex w h dev cpu0)),
          device_after = fst (snd res), launches = snd (snd res)\<rparr>"
  by (simp add: InpaintDepthMapWithConvolutionCUDA_def case_prod_beta)

lemma run_loop_count:
  "active_block_count (snd (initialize s tex w h dev cpu0)) = n \<Longrightarrow> n \<noteq> 0 \<Longrightarrow>
   inpaint_iterations (launch_diffusion uw tex g thr w h) m n 0 (- 9999)
     (upload_tiles (snd (initialize s tex w h dev cpu0)) (fst (initialize s tex w h dev cpu0))) []
     = res \<Longrightarrow>
   InpaintDepthMapWithConvolutionCUDA uw m thr s g tex w h dev cpu0 =
     (case res of Inl e \<Rightarrow> Inl e
      | Inr x \<Rightarrow> Inr \<lparr>iterations_returned = fst x,
          pixel_count = pixel_to_inpaint_count (snd (initialize s tex w h dev cpu0)),
          device_after = fst (snd x), launches = snd (snd x)\<rparr>)"
  by (auto simp: InpaintDepthMapWithConvolutionCUDA_def case_prod_beta split: sum.splits)

lemma run_overflow:
  "active_block_count (snd (initialize s tex w h dev cpu0)) \<noteq> 0 \<Longrightarrow>
   inpaint_iterations (launch_diffusion uw tex g thr w h) m
     (active_block_count (snd (initialize s tex w h dev cpu0))) 0 (- 9999)
     (upload_tiles (snd (initialize s tex w h dev cpu0)) (fst (initialize s tex w h dev cpu0))) []
     = Inl e \<Longrightarrow>
   InpaintDepthMapWithConvolutionCUDA uw m thr s g tex w h dev cpu0 = Inl e"
  by (simp add: InpaintDepthMapWithConvolutionCUDA_def case_prod_beta)

lemma run_cases:
  assumes "InpaintDepthMapWithConvolutionCUDA uw m thr s g tex w h dev cpu0 = Inr r"
    and "active_block_count (snd (initialize s tex w h dev cpu0)) = 0 \<Longrightarrow>
         r = \<lparr>iterations_returned = 0,
               pixel_count = pixel_to_inpaint_count (snd (initialize s tex w h dev cpu0)),
               device_after = fst (initialize s tex w h dev cpu0), launches = []\<rparr> \<Longrightarrow> P"
    and "\<And>res. active_block_count (snd (initialize s tex w h dev cpu0)) \<noteq> 0 \<Longrightarrow>
         inpaint_iterations (launch_diffusion uw tex g thr w h) m
           (active_block_count (snd (initialize s tex w h dev cpu0))) 0 (- 9999)
           (upload_tiles (snd (initialize s tex w h dev cpu0))
              (fst (initialize s tex w h dev cpu0))) [] = Inr res \<Longrightarrow>
         r = \<lparr>iterations_returned = fst res,
               pixel_count = pixel_to_inpaint_count (snd (initialize s tex w h dev cpu0)),
               device_after = fst (snd res), launches = snd (snd res)\<rparr> \<Longrightarrow> P"
  shows P
proof (cases "active_block_count (snd (initialize s tex w h dev cpu0)) = 0")
  case True
  with assms(1,2) show ?thesis by (simp add: run_idle)
next
  case False
  show ?thesis
  proof (cases "inpaint_iterations (launch_diffusion uw tex g thr w h) m
           (active_block_count (snd (initialize s tex w h dev cpu0))) 0 (- 9999)
           (upload_tiles (snd (initialize s tex w h dev cpu0))
              (fst (initialize s tex w h dev cpu0))) []")
    case (Inl e)
    with assms(1) False show ?thesis by (simp add: run_overflow)
  next
    case (Inr res)
    with assms(1) False have "r = \<lparr>iterations_returned = fst res,
               pixel_count = pixel_to_inpaint_count (snd (initialize s tex w h dev cpu0)),
               device_after = fst (snd res), launches = snd (snd res)\<rparr>"
      by (simp add: run_loop)
    with False Inr show ?thesis by (rule assms(3))
  qed
qed

lemma run_returns:
  assumes "m \<le> 2147483644"
  shows "\<exists>r. InpaintDepthMapWithConvolutionCUDA uw m thr s g tex w h dev cpu0 = Inr r"
proof (cases "active_block_count (snd (initialize s tex w h dev cpu0)) = 0")
  case True
  then show ?thesis by (simp add: run_idle)
next
  case False
  from loop_returns [OF schedule_start assms] obtain res where
    "inpaint_iterations (launch_diffusion uw tex g thr w h) m
       (active_block_count (snd (initialize s tex w h dev cpu0))) 0 (- 9999)
       (upload_tiles (snd (initialize s tex w h dev cpu0))
          (fst (initialize s tex w h dev cpu0))) [] = Inr res"
    by blast
  with False show ?thesis by (simp add: run_loop)
qed

lemma upload_tiles_active:
  "active_tiles (active_block_count c) (block_coordinates (upload_tiles c dev)) =
   active_tiles (active_block_count c) (block_coordinates_cpu c)"
  by (simp add: active_tiles_def upload_tiles_def)

lemma upload_tiles_output [simp]: "depth_map_output (upload_tiles c dev) = depth_map_output dev"
  by (simp add: upload_tiles_def)

section \<open>Hole classification\<close>

lemma fle_zero_iff: "fle a (Fin 0) \<longleftrightarrow> (\<exists>v. a = Fin v \<and> v \<le> 0) \<or> a = NInf"
  by (cases a) auto




section \<open>The frame of a diffusion launch\<close>

text \<open>
  Claim C5: a launch of either diffusion kernel decides whether a pixel is a hole from the
  input texture alone (\<open>kIsPixelToInpaint\<close> does not read the working buffer), and it leaves
  the working buffer unchanged at every pixel that is not a hole.
\<close>

theorem diffusion_writes_holes_only:
  "\<not> kIsPixelToInpaint tex x y \<Longrightarrow>
   depth_map_output (ConvolutionInpaintingKernel bsx bsy chk n tex thr w h dev) (y, x) =
     depth_map_output dev (y, x) \<and>
   depth_map_output (ConvolutionInpaintingKernelWithWeighting bsx bsy chk n tex g thr w h dev) (y, x) =
     depth_map_output dev (y, x)"
  by (simp add: kernel_u_frame kernel_w_frame)

theorem diffusion_writes_holes_only_witness:
  "depth_map_output (ConvolutionInpaintingKernel 32 32 True 1 tex_ten (Fin (1 / 100)) 1 1 dev_zero)
     (0, 0) = Fin 0 \<and>
   depth_map_output (ConvolutionInpaintingKernelWithWeighting 32 32 True 1 tex_ten grad_zero
     (Fin (1 / 100)) 1 1 dev_zero) (0, 0) = Fin 0"
  using diffusion_writes_holes_only [of tex_ten 0 0 32 32 True 1 "Fin (1 / 100)" 1 1 dev_zero grad_zero]
  by (simp add: kIsPixelToInpaint_def tex_ten_def dev_zero_def)

section \<open>The compacted list\<close>

text \<open>
  Claim C7, as stated: the compaction produces the origins
  \<open>(tile_x * kBlockOutputSizeX, tile_y * kBlockOutputSizeY)\<close> of the tiles with a positive
  count. The origins are stored as \<^verbatim>\<open>uint16_t\<close>: in a row of 2732 tiles of width 24 the
  tile 2731 has the origin 65544, and the list holds \<open>8\<close>.
\<close>

theorem compaction_wraps_counterexample:
  "map (\<lambda>t. (uint (fst t), uint (snd t)))
     (active_tiles (active_block_count (compact_blocks activity_wide 2732 1 24 24 cpu_zero))
        (block_coordinates_cpu (compact_blocks activity_wide 2732 1 24 24 cpu_zero))) = [(8, 0)] \<and>
   tile_active activity_wide 2732 (2731, 0) \<and> int 2731 * 24 = 65544"
proof -
  have "filter (tile_active activity_wide 2732) (tile_scan 2732 1) =
      map (\<lambda>x. (x, 0)) (filter (\<lambda>x. x = 2731) [0..<2732])"
    by (simp add: tile_scan_row filter_map comp_def tile_active_def activity_wide_def)
  also have "\<dots> = [(2731, 0)]" by (simp add: filter_upt_eq)
  finally show ?thesis
    by (simp add: compact_blocks_tiles tile_origin_words_def tile_active_def activity_wide_def)
qed

text \<open>
  Claim C7, amended: the compaction produces the list of the origins of the tiles with a
  positive count, in row-major order (\<open>tile_scan\<close>: \<open>y\<close> outer, \<open>x\<close> inner), stored as 16-bit
  values, and sets \<open>pixel_to_inpaint_count\<close> to the sum of these counts as a 32-bit value.
  The stored origins are the numbers
  \<open>(tile_x * kBlockOutputSizeX, tile_y * kBlockOutputSizeY)\<close> when
  \<open>grid_dim.x * kBlockOutputSizeX\<close> and \<open>grid_dim.y * kBlockOutputSizeY\<close> are at most
  65536, and the stored sum is the sum of the counts when that is below \<open>2 ^ 32\<close>.
\<close>

theorem compaction_lists_active_tiles:
  "active_tiles (active_block_count (compact_blocks act gx gy kx ky cpu0))
       (block_coordinates_cpu (compact_blocks act gx gy kx ky cpu0)) =
     map (tile_origin_words kx ky) (filter (tile_active act gx) (tile_scan gx gy)) \<and>
   active_block_count (compact_blocks act gx gy kx ky cpu0) =
     length (filter (tile_active act gx) (tile_scan gx gy)) \<and>
   pixel_to_inpaint_count (compact_blocks act gx gy kx ky cpu0) =
     sum_list (map (\<lambda>p. ucast (act (fst p + snd p * gx))) (filter (tile_active act gx) (tile_scan gx gy))) \<and>
   (0 \<le> kx \<and> 0 \<le> ky \<and> int gx * kx \<le> 65536 \<and> int gy * ky \<le> 65536 \<longrightarrow>
      map (\<lambda>t. (uint (fst t), uint (snd t)))
          (active_tiles (active_block_count (compact_blocks act gx gy kx ky cpu0))
             (block_coordinates_cpu (compact_blocks act gx gy kx ky cpu0))) =
      map (\<lambda>p. (int (fst p) * kx, int (snd p) * ky))
          (filter (tile_active act gx) (tile_scan gx gy))) \<and>
   (sum_list (map (\<lambda>p. unat (act (fst p + snd p * gx)))
       (filter (tile_active act gx) (tile_scan gx gy))) < 4294967296 \<longrightarrow>
      unat (pixel_to_inpaint_count (compact_blocks act gx gy kx ky cpu0)) =
      sum_list (map (\<lambda>p. unat (act (fst p + snd p * gx)))
        (filter (tile_active act gx) (tile_scan gx gy))))"
proof -
  let ?c = "compact_blocks act gx gy kx ky cpu0"
  let ?ps = "filter (tile_active act gx) (tile_scan gx gy)"
  have exact: "map (\<lambda>t. (uint (fst t), uint (snd t))) (map (tile_origin_words kx ky) ?ps) =
      map (\<lambda>p. (int (fst p) * kx, int (snd p) * ky)) ?ps"
    if "0 \<le> kx" "0 \<le> ky" "int gx * kx \<le> 65536" "int gy * ky \<le> 65536"
    using that by (auto simp: tile_scan_iff uint_tile_origin_words)
  have total: "unat (sum_list (map (\<lambda>p. ucast (act (fst p + snd p * gx))) ?ps) :: 32 word) =
      sum_list (map (\<lambda>p. unat (act (fst p + snd p * gx))) ?ps)"
    if "sum_list (map (\<lambda>p. unat (act (fst p + snd p * gx))) ?ps) < 4294967296"
    using that by (simp add: unat_sum_ucast)
  have count: "active_block_count ?c = length ?ps" by (rule compact_blocks_count)
  have pixels: "pixel_to_inpaint_count ?c =
      sum_list (map (\<lambda>p. ucast (act (fst p + snd p * gx))) ?ps)"
    by (rule compact_blocks_pixels)
  have tiles: "active_tiles (length ?ps) (block_coordinates_cpu ?c) =
      map (tile_origin_words kx ky) ?ps"
    using compact_blocks_tiles [of act gx gy kx ky cpu0] by (simp only: count)
  show ?thesis
    unfolding count pixels tiles using exact total by simp
qed

theorem compaction_lists_active_tiles_witness:
  "map (\<lambda>t. (uint (fst t), uint (snd t)))
     (active_tiles (active_block_count (compact_blocks activity0 2 2 24 24 cpu_zero))
        (block_coordinates_cpu (compact_blocks activity0 2 2 24 24 cpu_zero))) =
     [(24, 0), (0, 24)] \<and>
   active_block_count (compact_blocks activity0 2 2 24 24 cpu_zero) = 2 \<and>
   unat (pixel_to_inpaint_count (compact_blocks activity0 2 2 24 24 cpu_zero)) = 12"
proof -
  have scan: "tile_scan 2 2 = [(0, 0), (1, 0), (0, 1), (1, 1)]"
    by (simp add: tile_scan_def upt_rec)
  have act: "filter (tile_active activity0 2) (tile_scan 2 2) = [(1, 0), (0, 1)]"
    by (simp add: scan tile_active_def activity0_def)
  have fits: "(0::int) \<le> 24 \<and> (0::int) \<le> 24 \<and> int 2 * 24 \<le> 65536 \<and> int 2 * 24 \<le> 65536"
    by simp
  have small: "sum_list (map (\<lambda>p. unat (activity0 (fst p + snd p * 2))) [(1, 0), (0, 1)]) < 4294967296"
    by (simp add: activity0_def)
  note c = compaction_lists_active_tiles [of activity0 2 2 24 24 cpu_zero, unfolded act]
  from c fits have "map (\<lambda>t. (uint (fst t), uint (snd t)))
     (active_tiles (active_block_count (compact_blocks activity0 2 2 24 24 cpu_zero))
        (block_coordinates_cpu (compact_blocks activity0 2 2 24 24 cpu_zero))) =
     map (\<lambda>p. (int (fst p) * 24, int (snd p) * 24)) [(1, 0), (0, 1)]"
    by blast
  moreover from c have "active_block_count (compact_blocks activity0 2 2 24 24 cpu_zero) =
     length [(1::nat, 0::nat), (0, 1)]"
    by blast
  moreover from c small have "unat (pixel_to_inpaint_count (compact_blocks activity0 2 2 24 24 cpu_zero)) =
     sum_list (map (\<lambda>p. unat (activity0 (fst p + snd p * 2))) [(1, 0), (0, 1)])"
    by blast
  ultimately show ?thesis by (simp add: activity0_def)
qed

section \<open>The cached texture object\<close>

text \<open>
  Claim C9: when a texture object is cached and the five parameters of a request equal the
  cached configuration, \<open>GetCachedTextureObject\<close> returns the cached object and changes
  neither the buffer nor the runtime (no object is destroyed or created); when a parameter
  differs, it destroys the cached object, creates one with the requested descriptor and
  caches it, so that the cache holds the requested configuration; a repeated request
  returns the same object.
\<close>

theorem GetCachedTextureObject_cache:
  assumes "texture_object_allocated buf"
  shows "(cached_configuration buf = (amx, amy, fm, rm, nc) \<longrightarrow>
            GetCachedTextureObject amx amy fm rm nc False (buf, rt) =
              Inr (texture_object buf, buf, rt)) \<and>
         (cached_configuration buf \<noteq> (amx, amy, fm, rm, nc) \<longrightarrow>
            (\<exists>obj buf' rt'.
               GetCachedTextureObject amx amy fm rm nc False (buf, rt) = Inr (obj, buf', rt') \<and>
               calls rt' = calls rt @ [Destroyed (texture_object buf),
                                      Created obj (requested_desc buf amx amy fm rm nc)] \<and>
               live_textures rt' obj = Some (requested_desc buf amx amy fm rm nc) \<and>
               texture_object_allocated buf' \<and> texture_object buf' = obj \<and>
               cached_configuration buf' = (amx, amy, fm, rm, nc))) \<and>
         (\<forall>obj buf' rt'.
            GetCachedTextureObject amx amy fm rm nc False (buf, rt) = Inr (obj, buf', rt') \<longrightarrow>
            GetCachedTextureObject amx amy fm rm nc False (buf', rt') = Inr (obj, buf', rt'))"
  using assms
  by (auto simp: GetCachedTextureObject_def cached_configuration_def CreateTextureObject_def
      cudaCreateTextureObject_def cudaDestroyTextureObject_def requested_desc_def Let_def
      split: if_splits)

theorem GetCachedTextureObject_cache_witness:
  "texture_object_allocated buf0 \<and>
   GetCachedTextureObject cudaAddressModeClamp cudaAddressModeClamp cudaFilterModePoint
       cudaReadModeElementType False False (buf0, rt0) = Inr (7, buf0, rt0) \<and>
   (\<exists>buf' rt'. GetCachedTextureObject cudaAddressModeClamp cudaAddressModeClamp cudaFilterModeLinear
       cudaReadModeElementType False False (buf0, rt0) = Inr (8, buf', rt') \<and>
       calls rt' = [Destroyed 7, Created 8 (requested_desc buf0 cudaAddressModeClamp
          cudaAddressModeClamp cudaFilterModeLinear cudaReadModeElementType False)] \<and>
       filter_mode buf' = cudaFilterModeLinear)"
proof -
  have a: "texture_object_allocated buf0" by (simp add: buf0_def)
  have same: "cached_configuration buf0 = (cudaAddressModeClamp, cudaAddressModeClamp,
     cudaFilterModePoint, cudaReadModeElementType, False)"
    by (simp add: cached_configuration_def buf0_def)
  have diff: "cached_configuration buf0 \<noteq> (cudaAddressModeClamp, cudaAddressModeClamp,
     cudaFilterModeLinear, cudaReadModeElementType, False)"
    by (simp add: cached_configuration_def buf0_def)
  from GetCachedTextureObject_cache [OF a, of cudaAddressModeClamp cudaAddressModeClamp
     cudaFilterModePoint cudaReadModeElementType False rt0] same
  have 1: "GetCachedTextureObject cudaAddressModeClamp cudaAddressModeClamp cudaFilterModePoint
       cudaReadModeElementType False False (buf0, rt0) = Inr (7, buf0, rt0)"
    by (simp add: buf0_def)
  from GetCachedTextureObject_cache [OF a, of cudaAddressModeClamp cudaAddressModeClamp
     cudaFilterModeLinear cudaReadModeElementType False rt0] diff
  obtain obj buf' rt' where 2: "GetCachedTextureObject cudaAddressModeClamp cudaAddressModeClamp cudaFilterModeLinear
       cudaReadModeElementType False False (buf0, rt0) = Inr (obj, buf', rt')"
     "calls rt' = calls rt0 @ [Destroyed (texture_object buf0), Created obj (requested_desc buf0 cudaAddressModeClamp
          cudaAddressModeClamp cudaFilterModeLinear cudaReadModeElementType False)]"
     "cached_configuration buf' = (cudaAddressModeClamp, cudaAddressModeClamp,
     cudaFilterModeLinear, cudaReadModeElementType, False)"
    by blast
  have obj: "obj = 8" using 2(1)
    by (simp add: GetCachedTextureObject_def buf0_def rt0_def CreateTextureObject_def
        cudaCreateTextureObject_def cudaDestroyTextureObject_def)
  show ?thesis using a 1 2 obj
    by (auto simp: buf0_def rt0_def cached_configuration_def)
qed

section \<open>A depth map without holes\<close>

text \<open>
  Claim C3: when no pixel of the image is a hole, that is, when no scaled input
  \<open>depth_input_scaling_factor * input\<close> equals zero (the test that counts the holes), the
  call returns 0, launches no diffusion kernel, sets the hole count to 0 and leaves in the
  output buffer, at every pixel, the input multiplied by \<open>depth_input_scaling_factor\<close>.
\<close>

theorem no_holes_no_iterations:
  assumes "0 < w" "w < 2147483648" "0 < h" "h < 2147483648"
    and "\<forall>x y. 0 \<le> x \<and> x < w \<and> 0 \<le> y \<and> y < h \<longrightarrow> \<not> feq (fmul s (tex x y)) (Fin 0)"
  shows "\<exists>r. InpaintDepthMapWithConvolutionCUDA uw m thr s g tex w h dev cpu0 = Inr r \<and>
           iterations_returned r = 0 \<and> launches r = [] \<and> pixel_count r = 0 \<and>
           (\<forall>x y. 0 \<le> x \<and> x < w \<and> 0 \<le> y \<and> y < h \<longrightarrow>
              depth_map_output (device_after r) (y, x) = fmul s (tex x y))"
proof -
  have a: "\<forall>x y. 0 \<le> x \<and> x < w \<and> 0 \<le> y \<and> y < h \<longrightarrow> \<not> thread_is_active s tex x y"
    using assms(5) by (simp add: thread_is_active_def depth_input_def)
  have n: "active_block_count (snd (initialize s tex w h dev cpu0)) = 0"
    "pixel_to_inpaint_count (snd (initialize s tex w h dev cpu0)) = 0"
    using initialize_no_holes [of w h s tex dev cpu0] assms(1-4) a by simp_all
  have o: "depth_map_output (fst (initialize s tex w h dev cpu0)) (y, x) = fmul s (tex x y)"
    if "0 \<le> x" "x < w" "0 \<le> y" "y < h" for x y
    using initialize_output [OF that, of s tex dev cpu0] assms by (simp add: depth_input_def)
  show ?thesis
    using n o by (simp add: run_idle)
qed

theorem no_holes_no_iterations_witness:
  "\<not> isl no_holes_run \<and> iterations_returned (projr no_holes_run) = 0 \<and>
   launches (projr no_holes_run) = [] \<and> pixel_count (projr no_holes_run) = 0 \<and>
   depth_map_output (device_after (projr no_holes_run)) (0, 0) = Fin 20"
  using no_holes_no_iterations [of 1 1 "Fin 2" tex_ten False 100 "Fin (1 / 100)" grad_zero
      dev_zero cpu_zero]
  by (auto simp: no_holes_run_def tex_ten_def feq_def round32_20)

section \<open>Signs of rounded results\<close>

lemma is_finite_iff: "is_finite v \<longleftrightarrow> (\<exists>r. v = Fin r)"
  by (cases v) (simp_all add: is_finite_def)

lemma is_nonneg_iff: "is_nonneg v \<longleftrightarrow> (\<exists>r. v = Fin r \<and> 0 \<le> r)"
  by (cases v) (simp_all add: is_nonneg_def)

lemma not_negative_simps [simp]:
  "not_negative (Fin r) = (0 \<le> r)" "not_negative PInf" "not_negative NaN" "\<not> not_negative NInf"
  by (simp_all add: not_negative_def)

lemma float_nonneg_simps [simp]:
  "float_nonneg (Fin r) = (r = 0 \<or> float_denorm_min \<le> r)" "float_nonneg PInf"
  "\<not> float_nonneg NaN" "\<not> float_nonneg NInf"
  by (simp_all add: float_nonneg_def)

lemma not_negative_iff:
  "not_negative v \<longleftrightarrow> (\<exists>r. v = Fin r \<and> 0 \<le> r) \<or> v = PInf \<or> v = NaN"
  by (cases v) (simp_all add: not_negative_def)

lemma not_negative_fgt: "not_negative v \<Longrightarrow> \<not> fgt (Fin 0) v"
  by (cases v) (simp_all add: not_negative_def)

lemma fgt_not_negative: "fgt v (Fin 0) \<Longrightarrow> not_negative v"
  by (cases v) (simp_all add: not_negative_def)

lemma fgt_zero_iff: "fgt v (Fin 0) \<longleftrightarrow> (\<exists>r. v = Fin r \<and> 0 < r) \<or> v = PInf"
  by (cases v) simp_all

lemma round32_not_negative: "0 \<le> r \<Longrightarrow> not_negative (round32 r)"
  using round32_nonneg [of r] by auto

lemma round32_float_nonneg: "0 \<le> r \<Longrightarrow> float_nonneg (round32 r)"
proof -
  assume "0 \<le> r"
  from round32_nonneg [OF this] show ?thesis
  proof
    assume "round32 r = PInf"
    then show ?thesis by simp
  next
    assume "\<exists>v. round32 r = Fin v \<and> 0 \<le> v"
    then obtain v where v: "round32 r = Fin v" "0 \<le> v" by blast
    with round32_grid [OF v(1)] show ?thesis by auto
  qed
qed

lemma float_nonneg_iff:
  "float_nonneg v \<longleftrightarrow> v = Fin 0 \<or> (\<exists>r. v = Fin r \<and> float_denorm_min \<le> r) \<or> v = PInf"
  by (cases v) (auto simp: float_nonneg_def)

lemma float_nonneg_positive: "float_nonneg v \<Longrightarrow> v \<noteq> Fin 0 \<Longrightarrow> fgt v (Fin 0)"
  using float_denorm_min_pos by (auto simp: float_nonneg_iff)

lemma fadd_not_negative:
  assumes "not_negative a" "not_negative b"
  shows "not_negative (fadd a b)"
  using assms
  by (cases a; cases b) (simp_all add: round32_not_negative)

lemma round32_float_positive:
  assumes "float_denorm_min \<le> r"
  shows "float_nonneg (round32 r) \<and> round32 r \<noteq> Fin 0"
  using round32_positive [OF assms] float_denorm_min_pos by auto

lemma fadd_float_nonneg:
  assumes "float_nonneg a" "float_nonneg b"
  shows "float_nonneg (fadd a b) \<and> (fadd a b = Fin 0 \<longrightarrow> a = Fin 0 \<and> b = Fin 0)"
proof (cases "a = PInf \<or> b = PInf")
  case True
  with assms show ?thesis by (cases a; cases b) auto
next
  case False
  with assms obtain x y where xy: "a = Fin x" "b = Fin y"
    "x = 0 \<or> float_denorm_min \<le> x" "y = 0 \<or> float_denorm_min \<le> y"
    by (auto simp: float_nonneg_iff)
  show ?thesis
  proof (cases "x = 0 \<and> y = 0")
    case True
    with xy show ?thesis by simp
  next
    case False
    with xy(3,4) float_denorm_min_pos have "float_denorm_min \<le> x + y" by auto
    from round32_float_positive [OF this] show ?thesis by (simp add: xy)
  qed
qed

lemma fmul_zero_cases: "fmul (Fin 0) v = Fin 0 \<or> fmul (Fin 0) v = NaN"
  by (cases v) (simp_all add: signed_inf_def)

lemma fmul_not_negative:
  assumes "float_nonneg p" "p \<noteq> Fin 0 \<longrightarrow> fgt d (Fin 0)"
  shows "not_negative (fmul p d)"
proof (cases "p = Fin 0")
  case True
  with fmul_zero_cases [of d] show ?thesis by auto
next
  case False
  with assms(2) have d: "(\<exists>r. d = Fin r \<and> 0 < r) \<or> d = PInf" by (simp add: fgt_zero_iff)
  from assms(1) False float_denorm_min_pos have p: "(\<exists>r. p = Fin r \<and> 0 < r) \<or> p = PInf"
    by (auto simp: float_nonneg_iff)
  from p d show ?thesis
    by (auto simp: signed_inf_def round32_not_negative)
qed

lemma fdiv_not_negative:
  assumes "not_negative r" "fgt q (Fin 0)"
  shows "not_negative (fdiv r q)"
proof -
  from assms(2) have q: "(\<exists>v. q = Fin v \<and> 0 < v) \<or> q = PInf" by (simp add: fgt_zero_iff)
  from assms(1) have r: "(\<exists>v. r = Fin v \<and> 0 \<le> v) \<or> r = PInf \<or> r = NaN"
    by (simp add: not_negative_iff)
  from q r show ?thesis
    by (auto simp: signed_inf_def round32_not_negative)
qed

lemma fbool_weight: "fmul (fbool c) (Fin k) = (if c then round32 k else Fin 0)"
  by (simp add: fbool_def)


section \<open>The unweighted kernel never writes a negative value\<close>

lemma neighbour_u_not_negative:
  assumes "not_negative (fst a)" "0 \<le> fst (snd n)"
  shows "not_negative (fst (neighbour_u sh n a))"
proof -
  obtain g k j where n: "n = (g, k, j)" by (cases n)
  obtain r q where a: "a = (r, q)" by (cases a)
  let ?p = "fmul (fbool (g \<and> fgt (sh j) (Fin 0))) (Fin k)"
  from assms(2) have "float_nonneg ?p"
    by (simp add: fbool_weight n round32_float_nonneg)
  moreover have "?p \<noteq> Fin 0 \<longrightarrow> fgt (sh j) (Fin 0)"
    by (simp add: fbool_weight)
  ultimately have "not_negative (fmul ?p (sh j))" by (rule fmul_not_negative)
  with assms(1) show ?thesis
    by (simp add: neighbour_u_def n a Let_def fadd_not_negative)
qed

lemma accumulate_u_not_negative:
  "not_negative (fst (accumulate_u bsx bsy tex w h origin sh t))"
proof -
  have f: "not_negative (fst (fold (neighbour_u sh) ns a))"
    if "\<forall>n\<in>set ns. 0 \<le> fst (snd n)" "not_negative (fst a)" for ns a
    using that by (induction ns arbitrary: a) (simp_all add: neighbour_u_not_negative)
  have p: "\<forall>n\<in>set (neighbours_u bsx w h x y i). 0 \<le> fst (snd n)" for x y i
    using w_pos by (simp add: neighbours_u_def)
  show ?thesis
    by (auto simp: accumulate_u_def split: prod.splits intro!: f p)
qed

lemma shared_write_u_not_negative:
  assumes "(j, v) \<in> set (shared_write_u bsx bsy tex w h origin sh t)"
  shows "not_negative v"
proof -
  obtain r q where a: "accumulate_u bsx bsy tex w h origin sh t = (r, q)"
    by (cases "accumulate_u bsx bsy tex w h origin sh t")
  with accumulate_u_not_negative [of bsx bsy tex w h origin sh t] have "not_negative r" by simp
  with assms a show ?thesis
    by (auto simp: shared_write_u_def Let_def fdiv_not_negative split: prod.splits if_splits)
qed

section \<open>Bounds of rounded results\<close>

lemma round_even_le: "x \<le> of_int n \<Longrightarrow> round_even x \<le> n"
proof -
  assume x: "x \<le> of_int n"
  then have f: "\<lfloor>x\<rfloor> \<le> n" by (simp add: floor_le_iff)
  show ?thesis
  proof (cases "\<lfloor>x\<rfloor> = n")
    case True
    with x have "x = of_int n" using of_int_floor_le [of x] by simp
    then show ?thesis by simp
  next
    case False
    with f have "\<lfloor>x\<rfloor> + 1 \<le> n" by simp
    with f show ?thesis by (auto simp: round_even_def Let_def)
  qed
qed

lemma float_exponent_high:
  "float_exponent n e a < e + int n \<Longrightarrow> a < 2 powi (float_exponent n e a + 1)"
proof (induction n e a rule: float_exponent.induct)
  case (1 e a)
  then show ?case by simp
next
  case (2 n e a)
  then show ?case by (cases "a < 2 powi (e + 1)") auto
qed

lemma round32_le_pow2:
  assumes "0 \<le> r" "r \<le> 2 powi k" "- 126 \<le> k" "k \<le> 127"
  shows "\<exists>v. round32 r = Fin v \<and> 0 \<le> v \<and> v \<le> 2 powi k"
proof -
  let ?e = "float_exponent 254 (- 126) r"
  have a: "\<bar>r\<bar> = r" using assms(1) by simp
  have e: "?e \<le> k"
  proof (rule ccontr)
    assume n: "\<not> ?e \<le> k"
    with assms(3) have "?e \<noteq> - 126" by simp
    with float_exponent_low [of 254 "- 126" r] have "2 powi ?e \<le> r" by simp
    moreover from n have "(2::real) powi k < 2 powi ?e"
      by (intro power_int_strict_increasing) simp_all
    ultimately show False using assms(2) by simp
  qed
  have u: "float_ulp r = 2 powi (?e - 23)" by (simp add: float_ulp_def)
  have "2 powi k = 2 powi (k - ?e + 23) * (2 powi (?e - 23) :: real)"
    by (simp flip: power_int_add)
  with assms(2) have "r / float_ulp r \<le> 2 powi (k - ?e + 23)"
    by (simp add: u pos_divide_le_eq)
  also have "(2::real) powi (k - ?e + 23) = of_int (2 ^ nat (k - ?e + 23))"
    using e by (simp add: power_int_def)
  finally have "round_even (r / float_ulp r) \<le> 2 ^ nat (k - ?e + 23)" by (rule round_even_le)
  then have "real_of_int (round_even (r / float_ulp r)) \<le> of_int (2 ^ nat (k - ?e + 23))"
    by (simp only: of_int_le_iff)
  also have "real_of_int (2 ^ nat (k - ?e + 23)) = 2 powi (k - ?e + 23)"
    using e by (simp add: power_int_def)
  finally have "of_int (round_even (r / float_ulp r)) * float_ulp r \<le>
      2 powi (k - ?e + 23) * float_ulp r"
    using float_ulp_pos [of r] by (intro mult_right_mono) simp_all
  also have "\<dots> = 2 powi k" by (simp add: u flip: power_int_add)
  finally have v: "of_int (round_even (r / float_ulp r)) * float_ulp r \<le> 2 powi k" .
  have "(2::real) powi k \<le> 2 powi 127" using assms(4) by (intro power_int_increasing) simp_all
  also have "\<dots> < (2::real) ^ 128" by simp
  finally have "(2::real) powi k < 2 ^ 128" .
  with v round32_magnitude [of r] assms(1) show ?thesis
    by (simp add: round32_def Let_def a)
qed

lemma round32_ge_pow2:
  assumes "2 powi j \<le> r" "- 126 \<le> j" "j \<le> 127"
  shows "round32 r = PInf \<or> (\<exists>v. round32 r = Fin v \<and> 2 powi j \<le> v)"
proof -
  let ?e = "float_exponent 254 (- 126) r"
  have r: "0 < r" using assms(1) by (rule less_le_trans [rotated]) simp
  then have a: "\<bar>r\<bar> = r" by simp
  have e: "j \<le> ?e"
  proof (rule ccontr)
    assume n: "\<not> j \<le> ?e"
    with assms(3) have "?e < - 126 + int 254" by simp
    then have "r < 2 powi (?e + 1)" by (rule float_exponent_high)
    moreover from n have "(2::real) powi (?e + 1) \<le> 2 powi j"
      by (intro power_int_increasing) simp_all
    ultimately show False using assms(1) by simp
  qed
  have low: "2 powi ?e \<le> r"
  proof (cases "?e = - 126")
    case True
    with e assms(2) have "j = ?e" by simp
    with assms(1) show ?thesis by simp
  next
    case False
    with float_exponent_low [of 254 "- 126" r] show ?thesis by simp
  qed
  have u: "float_ulp r = 2 powi (?e - 23)" by (simp add: float_ulp_def)
  have "2 powi ?e = 2 ^ 23 * (2 powi (?e - 23) :: real)"
    by (simp add: power_int_diff)
  with low have "of_int (2 ^ 23) \<le> r / float_ulp r"
    by (simp add: u pos_le_divide_eq)
  then have "2 ^ 23 \<le> round_even (r / float_ulp r)" by (rule round_even_ge)
  then have "(2 ^ 23 :: real) \<le> of_int (round_even (r / float_ulp r))"
    by (metis of_int_le_iff of_int_numeral of_int_power)
  then have "2 ^ 23 * float_ulp r \<le> of_int (round_even (r / float_ulp r)) * float_ulp r"
    using float_ulp_pos [of r] by (intro mult_right_mono) simp_all
  moreover have "2 ^ 23 * float_ulp r = 2 powi ?e" by (simp add: u power_int_diff)
  moreover have "(2::real) powi j \<le> 2 powi ?e" using e by (intro power_int_increasing) simp_all
  ultimately have "2 powi j \<le> of_int (round_even (r / float_ulp r)) * float_ulp r" by simp
  then show ?thesis using r by (simp add: round32_def Let_def a)
qed

lemma kSqrt2_value: "kSqrt2 = 11863283 / 8388608"
proof -
  have "round32 (14142135623731 / 10000000000000) = Fin (11863283 / 8388608)"
    by (subst round32_at [where e = 0]) (simp_all add: round_even_def)
  then show ?thesis by (simp add: kSqrt2_def float_literal_def)
qed

text \<open>The base weight of a thread is a number between 0 and 1.\<close>

lemma base_weight_range: "\<exists>q. base_weight g w h origin t = Fin q \<and> 0 \<le> q \<and> q \<le> 1"
proof -
  obtain x y where p: "pixel_w w h origin t = (x, y)" by (cases "pixel_w w h origin t")
  define gr where "gr = real_of_int (uint (g x y))"
  have g: "0 \<le> gr" "gr \<le> 255"
  proof -
    show "0 \<le> gr" unfolding gr_def by (rule of_int_nonneg) simp
    have "uint (g x y) < 2 ^ 8" using uint_bounded [of "g x y"] by simp
    then have "uint (g x y) \<le> 255" by simp
    then show "gr \<le> 255" unfolding gr_def by (metis of_int_le_iff of_int_numeral)
  qed
  have "0 \<le> 50 * gr" "50 * gr \<le> 2 powi 14" using g by simp_all
  from round32_le_pow2 [OF this] obtain a where
    a: "round32 (50 * gr) = Fin a" "0 \<le> a" "a \<le> 2 powi 14" by auto
  have "a * kSqrt2 \<le> 2 powi 14 * 2" using a by (intro mult_mono) (simp_all add: kSqrt2_value)
  then have "0 \<le> a * kSqrt2" "a * kSqrt2 \<le> 2 powi 15" using a by (simp_all add: kSqrt2_value)
  from round32_le_pow2 [OF this] obtain b where
    b: "round32 (a * kSqrt2) = Fin b" "0 \<le> b" "b \<le> 2 powi 15" by auto
  have "0 \<le> b / 255" "b / 255 \<le> 2 powi 15" using b by simp_all
  from round32_le_pow2 [OF this] obtain c where
    c: "round32 (b / 255) = Fin c" "0 \<le> c" "c \<le> 2 powi 15" by auto
  have "0 \<le> 1 + c" "1 + c \<le> 2 powi 16" using c by simp_all
  from round32_le_pow2 [OF this] obtain d where
    d: "round32 (1 + c) = Fin d" "0 \<le> d" "d \<le> 2 powi 16" by auto
  have "2 powi 0 \<le> 1 + c" using c by simp
  from round32_ge_pow2 [OF this] d have d1: "1 \<le> d" by simp
  have den: "fadd (Fin 1) (fdiv (fmul (fmul (Fin 50) (Fin gr)) (Fin kSqrt2)) (Fin 255)) = Fin d"
    by (simp add: a b c d)
  define n where "n = (if kInImage w h origin t then 1 else (0::real))"
  have num: "fmul (fbool (kInImage w h origin t)) (Fin 1) = Fin n"
    by (simp add: fbool_def n_def)
  have "0 \<le> n / d" "n / d \<le> 2 powi 0" using d1 by (simp_all add: divide_le_eq n_def)
  from round32_le_pow2 [OF this] obtain q where
    q: "round32 (n / d) = Fin q" "0 \<le> q" "q \<le> 1" by auto
  have "base_weight g w h origin t =
      fdiv (fmul (fbool (kInImage w h origin t)) (Fin 1))
        (fadd (Fin 1) (fdiv (fmul (fmul (Fin 50) (Fin gr)) (Fin kSqrt2)) (Fin 255)))"
    unfolding base_weight_def p gr_def by simp
  also have "\<dots> = Fin q" unfolding den num using d1 q by simp
  finally show ?thesis using q by simp
qed

lemma base_weight_flag: "is_nonneg (fmul (base_weight g w h origin t) (fbool c))"
proof -
  from base_weight_range [of g w h origin t] obtain q where
    q: "base_weight g w h origin t = Fin q" "0 \<le> q" "q \<le> 1" by auto
  have "0 \<le> q * (if c then 1 else 0)" "q * (if c then 1 else 0) \<le> 2 powi 0"
    using q by simp_all
  from round32_le_pow2 [OF this] show ?thesis
    by (auto simp: q fbool_def is_nonneg_def)
qed

section \<open>The accumulation of the kernel with weighting\<close>

lemma neighbour_w_weak:
  assumes "acc_weak a" "is_nonneg (ws (snd n))" "0 \<le> fst n"
  shows "acc_weak (neighbour_w sh ws n a)"
proof -
  obtain k j where n: "n = (k, j)" by (cases n)
  obtain nd wt where a: "a = (nd, wt)" by (cases a)
  from assms(1) have wt: "float_nonneg wt" and z: "wt = Fin 0 \<longrightarrow> nd = Fin 0 \<or> nd = NaN"
    by (simp_all add: acc_weak_def a)
  from assms(2) obtain u where u: "ws j = Fin u" "0 \<le> u" by (auto simp: is_nonneg_iff n)
  from assms(3) have k: "0 \<le> k" by (simp add: n)
  let ?p = "fmul (Fin k) (ws j)"
  have p: "float_nonneg ?p" using k u by (simp add: round32_float_nonneg del: float_nonneg_simps)
  note s = fadd_float_nonneg [OF wt p]
  have r: "neighbour_w sh ws n a = (fadd nd (fmul ?p (sh j)), fadd wt ?p)"
    by (simp add: neighbour_w_def n a Let_def)
  have "fadd nd (fmul ?p (sh j)) = Fin 0 \<or> fadd nd (fmul ?p (sh j)) = NaN" if "fadd wt ?p = Fin 0"
  proof -
    from s that have "wt = Fin 0" "?p = Fin 0" by simp_all
    with z fmul_zero_cases [of "sh j"] show ?thesis by auto
  qed
  with s show ?thesis by (simp add: r acc_weak_def)
qed

lemma accumulate_w_weak:
  assumes "weights_ok ws"
  shows "acc_weak (accumulate_w bsx sh ws t)"
proof -
  have f: "is_nonneg (ws j)" for j using assms by (simp add: weights_ok_def)
  have fold_weak: "acc_weak (fold (neighbour_w sh ws) ns a)"
    if "\<forall>n\<in>set ns. 0 \<le> fst n" "acc_weak a" for ns a
    using that by (induction ns arbitrary: a) (simp_all add: neighbour_w_weak f)
  have pos: "\<forall>n\<in>set (neighbours_w bsx i). 0 \<le> fst n" for i
    using w_pos by (simp add: neighbours_w_def)
  have z: "acc_weak (Fin 0, Fin 0)" by (simp add: acc_weak_def)
  show ?thesis
    unfolding accumulate_w_def by (rule fold_weak [OF pos z])
qed

text \<open>With non-negative weights, a positive candidate has a positive weight.\<close>

lemma new_depth_w_weight:
  assumes "weights_ok ws" "fgt (new_depth_w bsx bsy tex w h origin sh ws t) (Fin 0)"
  shows "fgt (snd (accumulate_w bsx sh ws t)) (Fin 0) \<and>
         new_depth_w bsx bsy tex w h origin sh ws t =
           fdiv (fst (accumulate_w bsx sh ws t)) (snd (accumulate_w bsx sh ws t))"
proof -
  obtain nd wt where a: "accumulate_w bsx sh ws t = (nd, wt)" by (cases "accumulate_w bsx sh ws t")
  from accumulate_w_weak [OF assms(1), of bsx sh t]
  have wt: "float_nonneg wt" and z: "wt = Fin 0 \<longrightarrow> nd = Fin 0 \<or> nd = NaN"
    by (simp_all add: acc_weak_def a)
  from assms(2) have eq: "new_depth_w bsx bsy tex w h origin sh ws t = fdiv nd wt"
    by (auto simp: new_depth_w_def a case_prod_beta Let_def split: if_splits)
  have "wt \<noteq> Fin 0"
  proof
    assume "wt = Fin 0"
    with z have "fdiv nd wt = NaN" by (auto simp: signed_inf_def)
    with assms(2) eq show False by simp
  qed
  with wt have "fgt wt (Fin 0)" by (rule float_nonneg_positive)
  with eq show ?thesis by (simp add: a)
qed

section \<open>The cell of a thread after a sub-iteration\<close>

text \<open>Each thread writes at most its own cell, so the cell of a thread holds what it wrote.\<close>

lemma own_cell_writes:
  assumes "t \<in> set (block_threads bsx bsy)"
    and "\<And>t'. f t' = [] \<or> (\<exists>v. f t' = [(shared_mem_index bsx t', v)])"
  shows "apply_writes (concat (map f (block_threads bsx bsy))) sh (shared_mem_index bsx t) =
         (if f t = [] then sh (shared_mem_index bsx t) else snd (hd (f t)))"
proof (cases "f t = []")
  case True
  have "shared_mem_index bsx t \<notin> fst ` set (concat (map f (block_threads bsx bsy)))"
  proof
    assume "shared_mem_index bsx t \<in> fst ` set (concat (map f (block_threads bsx bsy)))"
    then obtain t' v where t': "t' \<in> set (block_threads bsx bsy)"
      "(shared_mem_index bsx t, v) \<in> set (f t')"
      by auto
    with assms(2) [of t'] have "shared_mem_index bsx t' = shared_mem_index bsx t" by auto
    from shared_mem_index_inj [OF t'(1) assms(1) this] t'(2) True show False by simp
  qed
  with True show ?thesis by (simp add: apply_writes_untouched)
next
  case False
  with assms(2) [of t] obtain v where v: "f t = [(shared_mem_index bsx t, v)]" by auto
  have "apply_writes (concat (map f (block_threads bsx bsy))) sh (shared_mem_index bsx t) = v"
  proof (rule apply_writes_functional)
    have "(shared_mem_index bsx t, v) \<in> set (f t)" by (simp add: v)
    with assms(1) show "(shared_mem_index bsx t, v) \<in> set (concat (map f (block_threads bsx bsy)))"
      by auto
  next
    fix v'
    assume "(shared_mem_index bsx t, v') \<in> set (concat (map f (block_threads bsx bsy)))"
    then obtain t' where t': "t' \<in> set (block_threads bsx bsy)"
      "(shared_mem_index bsx t, v') \<in> set (f t')"
      by auto
    with assms(2) [of t'] have "shared_mem_index bsx t' = shared_mem_index bsx t" by auto
    from shared_mem_index_inj [OF t'(1) assms(1) this] t'(2) v show "v' = v" by simp
  qed
  with False v show ?thesis by simp
qed

lemma sub_iteration_u_cell:
  assumes "t \<in> set (block_threads bsx bsy)"
  shows "fst (sub_iteration_u bsx bsy chk tex thr w h origin b i (sh, fl)) (shared_mem_index bsx t) =
         (if kIsPixelToInpaint tex (fst (pixel_u w h origin t)) (snd (pixel_u w h origin t)) \<and>
             fgt (snd (accumulate_u bsx bsy tex w h origin sh t)) (Fin 0)
          then fdiv (fst (accumulate_u bsx bsy tex w h origin sh t))
                 (snd (accumulate_u bsx bsy tex w h origin sh t))
          else sh (shared_mem_index bsx t))"
proof -
  have "shared_write_u bsx bsy tex w h origin sh t' = [] \<or>
      (\<exists>v. shared_write_u bsx bsy tex w h origin sh t' = [(shared_mem_index bsx t', v)])" for t'
    by (simp add: shared_write_u_def case_prod_beta)
  note cell = own_cell_writes [OF assms this, of sh]
  have res: "fst (sub_iteration_u bsx bsy chk tex thr w h origin b i (sh, fl)) =
      apply_writes (concat (map (shared_write_u bsx bsy tex w h origin sh) (block_threads bsx bsy))) sh"
    by (simp add: sub_iteration_u_def Let_def)
  have wr: "shared_write_u bsx bsy tex w h origin sh t =
      (if kIsPixelToInpaint tex (fst (pixel_u w h origin t)) (snd (pixel_u w h origin t)) \<and>
          fgt (snd (accumulate_u bsx bsy tex w h origin sh t)) (Fin 0)
       then [(shared_mem_index bsx t, fdiv (fst (accumulate_u bsx bsy tex w h origin sh t))
                 (snd (accumulate_u bsx bsy tex w h origin sh t)))]
       else [])"
    by (simp add: shared_write_u_def case_prod_beta)
  show ?thesis
    unfolding res cell wr by simp
qed

lemma sub_iteration_w_cell:
  assumes "t \<in> set (block_threads bsx bsy)"
  shows "fst (sub_iteration_w bsx bsy chk tex g thr w h origin b i (sh, ws, fl))
           (shared_mem_index bsx t) =
         (if kIsPixelToInpaint tex (fst (pixel_w w h origin t)) (snd (pixel_w w h origin t)) \<and>
             fgt (new_depth_w bsx bsy tex w h origin sh ws t) (Fin 0)
          then new_depth_w bsx bsy tex w h origin sh ws t
          else sh (shared_mem_index bsx t))"
proof -
  have "shared_write_w bsx bsy tex w h origin sh ws t' = [] \<or>
      (\<exists>v. shared_write_w bsx bsy tex w h origin sh ws t' = [(shared_mem_index bsx t', v)])" for t'
    by (simp add: shared_write_w_def case_prod_beta Let_def)
  note cell = own_cell_writes [OF assms this, of sh]
  have res: "fst (sub_iteration_w bsx bsy chk tex g thr w h origin b i (sh, ws, fl)) =
      apply_writes (concat (map (shared_write_w bsx bsy tex w h origin sh ws) (block_threads bsx bsy))) sh"
    by (simp add: sub_iteration_w_def Let_def)
  have wr: "shared_write_w bsx bsy tex w h origin sh ws t =
      (if kIsPixelToInpaint tex (fst (pixel_w w h origin t)) (snd (pixel_w w h origin t)) \<and>
          fgt (new_depth_w bsx bsy tex w h origin sh ws t) (Fin 0)
       then [(shared_mem_index bsx t, new_depth_w bsx bsy tex w h origin sh ws t)]
       else [])"
    by (simp add: shared_write_w_def case_prod_beta Let_def)
  show ?thesis
    unfolding res cell wr by simp
qed


text \<open>The weights in shared memory are finite and non-negative.\<close>

lemma weights_ok_load: "weights_ok (load_weights bsx g w h origin buffer ts)"
  unfolding weights_ok_def load_weights_def
proof
  fix j
  let ?wl = "map (\<lambda>t. (shared_mem_index bsx t,
     fmul (base_weight g w h origin t)
       (fbool (fgt (buffer (snd (pixel_w w h origin t), fst (pixel_w w h origin t))) (Fin 0))))) ts"
  have "is_nonneg v" if "(j, v) \<in> set ?wl" for v
    using that by (auto simp: base_weight_flag)
  then show "is_nonneg (apply_writes ?wl (\<lambda>_. Fin 0) j)"
    using apply_writes_cases [of ?wl "\<lambda>_. Fin 0" j] by (auto simp: is_nonneg_def)
qed

lemma weights_ok_step:
  assumes "weights_ok ws"
  shows "weights_ok (fst (snd (sub_iteration_w bsx bsy chk tex g thr w h origin b i (sh, ws, fl))))"
  unfolding weights_ok_def
proof
  fix j
  let ?ww = "concat (map (weight_write_w bsx bsy tex g w h origin i sh ws) (block_threads bsx bsy))"
  have "is_nonneg v" if "(j, v) \<in> set ?ww" for v
  proof -
    from that obtain t where "(j, v) \<in> set (weight_write_w bsx bsy tex g w h origin i sh ws t)"
      by auto
    then show ?thesis
      by (auto simp: weight_write_w_def Let_def base_weight_flag split: prod.splits if_splits)
  qed
  with assms show "is_nonneg (fst (snd (sub_iteration_w bsx bsy chk tex g thr w h origin b i (sh, ws, fl))) j)"
    using apply_writes_cases [of ?ww ws j]
    by (auto simp: sub_iteration_w_def Let_def weights_ok_def)
qed

section \<open>No hole receives a negative value\<close>

lemma load_shared_at:
  assumes "t \<in> set (block_threads bsx bsy)"
  shows "load_shared bsx pixel buffer (block_threads bsx bsy) (shared_mem_index bsx t) =
         buffer (snd (pixel t), fst (pixel t))"
  unfolding load_shared_def
proof (rule apply_writes_functional)
  show "(shared_mem_index bsx t, buffer (snd (pixel t), fst (pixel t))) \<in>
      set (map (\<lambda>t. (shared_mem_index bsx t, buffer (snd (pixel t), fst (pixel t))))
             (block_threads bsx bsy))"
    using assms by auto
next
  fix v'
  assume "(shared_mem_index bsx t, v') \<in>
      set (map (\<lambda>t. (shared_mem_index bsx t, buffer (snd (pixel t), fst (pixel t))))
             (block_threads bsx bsy))"
  then obtain t' where t': "t' \<in> set (block_threads bsx bsy)"
    "shared_mem_index bsx t' = shared_mem_index bsx t" "v' = buffer (snd (pixel t'), fst (pixel t'))"
    by auto
  from shared_mem_index_inj [OF t'(1) assms t'(2)] t'(3)
  show "v' = buffer (snd (pixel t), fst (pixel t))" by simp
qed


lemma kept_or_not_negative_refl: "kept_or_not_negative sh sh"
  by (simp add: kept_or_not_negative_def)

lemma sub_iteration_u_step:
  "fst (sub_iteration_u bsx bsy chk tex thr w h origin b i (sh, fl)) j = sh j \<or>
   not_negative (fst (sub_iteration_u bsx bsy chk tex thr w h origin b i (sh, fl)) j)"
proof -
  let ?ws = "concat (map (shared_write_u bsx bsy tex w h origin sh) (block_threads bsx bsy))"
  have "apply_writes ?ws sh j = sh j \<or> (j, apply_writes ?ws sh j) \<in> set ?ws"
    by (rule apply_writes_cases)
  moreover have "not_negative v" if "(j, v) \<in> set ?ws" for v
  proof -
    from that obtain t where "(j, v) \<in> set (shared_write_u bsx bsy tex w h origin sh t)"
      by auto
    then show ?thesis by (rule shared_write_u_not_negative)
  qed
  ultimately show ?thesis
    by (auto simp: sub_iteration_u_def Let_def)
qed

lemma sub_iteration_w_step:
  "fst (sub_iteration_w bsx bsy chk tex g thr w h origin b i (sh, ws, fl)) j = sh j \<or>
   not_negative (fst (sub_iteration_w bsx bsy chk tex g thr w h origin b i (sh, ws, fl)) j)"
proof -
  let ?ws = "concat (map (shared_write_w bsx bsy tex w h origin sh ws) (block_threads bsx bsy))"
  have "apply_writes ?ws sh j = sh j \<or> (j, apply_writes ?ws sh j) \<in> set ?ws"
    by (rule apply_writes_cases)
  moreover have "not_negative v" if "(j, v) \<in> set ?ws" for v
  proof -
    from that obtain t where "(j, v) \<in> set (shared_write_w bsx bsy tex w h origin sh ws t)"
      by auto
    then have "fgt v (Fin 0)"
      by (auto simp: shared_write_w_def Let_def split: prod.splits if_splits)
    then show ?thesis by (rule fgt_not_negative)
  qed
  ultimately show ?thesis
    by (auto simp: sub_iteration_w_def Let_def)
qed

lemma sub_iterations_u_inv:
  assumes "kept_or_not_negative sh0 (fst st)"
  shows "kept_or_not_negative sh0
           (fst (fold (sub_iteration_u bsx bsy chk tex thr w h origin b) is st))"
  using assms
proof (induction "is" arbitrary: st)
  case Nil
  then show ?case by simp
next
  case (Cons i "is")
  obtain sh fl where st: "st = (sh, fl)" by (cases st)
  have "kept_or_not_negative sh0 (fst (sub_iteration_u bsx bsy chk tex thr w h origin b i (sh, fl)))"
    unfolding kept_or_not_negative_def
  proof
    fix j
    from sub_iteration_u_step [of bsx bsy chk tex thr w h origin b i sh fl j] Cons.prems
    show "fst (sub_iteration_u bsx bsy chk tex thr w h origin b i (sh, fl)) j = sh0 j \<or>
       not_negative (fst (sub_iteration_u bsx bsy chk tex thr w h origin b i (sh, fl)) j)"
      by (auto simp: kept_or_not_negative_def st)
  qed
  from Cons.IH [OF this] show ?case by (simp add: st)
qed

lemma sub_iterations_w_inv:
  assumes "kept_or_not_negative sh0 (fst st)"
  shows "kept_or_not_negative sh0
           (fst (fold (sub_iteration_w bsx bsy chk tex g thr w h origin b) is st))"
  using assms
proof (induction "is" arbitrary: st)
  case Nil
  then show ?case by simp
next
  case (Cons i "is")
  obtain sh ws fl where st: "st = (sh, ws, fl)" by (cases st)
  have "kept_or_not_negative sh0
      (fst (sub_iteration_w bsx bsy chk tex g thr w h origin b i (sh, ws, fl)))"
    unfolding kept_or_not_negative_def
  proof
    fix j
    from sub_iteration_w_step [of bsx bsy chk tex g thr w h origin b i sh ws fl j] Cons.prems
    show "fst (sub_iteration_w bsx bsy chk tex g thr w h origin b i (sh, ws, fl)) j = sh0 j \<or>
       not_negative (fst (sub_iteration_w bsx bsy chk tex g thr w h origin b i (sh, ws, fl)) j)"
      by (auto simp: kept_or_not_negative_def st)
  qed
  from Cons.IH [OF this] show ?case by (simp add: st)
qed

text \<open>
  A pixel written by a block receives the cell of a thread that loaded the same pixel; the
  cell holds the loaded value or one that is not negative.
\<close>

lemma block_write_not_negative:
  assumes "holes_not_negative tex w h buffer"
    and "kept_or_not_negative (load_shared bsx pixel buffer (block_threads bsx bsy)) sh"
    and "\<And>t p v. t \<in> set (block_threads bsx bsy) \<Longrightarrow> (p, v) \<in> set (f t) \<Longrightarrow>
           p = (snd (pixel t), fst (pixel t)) \<and> v = sh (shared_mem_index bsx t)"
  shows "holes_not_negative tex w h
           (apply_writes (concat (map f (block_threads bsx bsy))) buffer)"
  unfolding holes_not_negative_def
proof (intro allI impI)
  fix y x
  assume r: "0 \<le> x \<and> x < w \<and> 0 \<le> y \<and> y < h \<and> kIsPixelToInpaint tex x y"
  let ?ws = "concat (map f (block_threads bsx bsy))"
  let ?new = "apply_writes ?ws buffer (y, x)"
  from assms(1) r have old: "not_negative (buffer (y, x))" by (simp add: holes_not_negative_def)
  have "?new = buffer (y, x) \<or> ((y, x), ?new) \<in> set ?ws" by (rule apply_writes_cases)
  then show "not_negative ?new"
  proof
    assume "?new = buffer (y, x)"
    with old show ?thesis by simp
  next
    assume "((y, x), ?new) \<in> set ?ws"
    then obtain t where t: "t \<in> set (block_threads bsx bsy)" "((y, x), ?new) \<in> set (f t)"
      by auto
    from assms(3) [OF this] have p: "(y, x) = (snd (pixel t), fst (pixel t))"
      and v: "?new = sh (shared_mem_index bsx t)" by blast+
    from load_shared_at [OF t(1), of pixel buffer] p
    have "load_shared bsx pixel buffer (block_threads bsx bsy) (shared_mem_index bsx t) = buffer (y, x)"
      by simp
    moreover from assms(2) have "sh (shared_mem_index bsx t) =
        load_shared bsx pixel buffer (block_threads bsx bsy) (shared_mem_index bsx t) \<or>
        not_negative (sh (shared_mem_index bsx t))"
      by (simp add: kept_or_not_negative_def)
    ultimately have "not_negative (sh (shared_mem_index bsx t))"
      using old by auto
    with v show ?thesis by simp
  qed
qed

lemma block_u_ok:
  assumes "holes_not_negative tex w h (depth_map_output dev)"
  shows "holes_not_negative tex w h (depth_map_output (block_u bsx bsy chk tex thr w h b dev))"
proof -
  let ?origin = "tile_origin (block_coordinates dev) b"
  let ?T = "block_threads bsx bsy"
  let ?st = "block_iterations_u bsx bsy chk tex thr w h b dev"
  have out: "depth_map_output (block_u bsx bsy chk tex thr w h b dev) =
      apply_writes (concat (map (output_write_u bsx bsy tex w h ?origin (fst ?st)) ?T))
        (depth_map_output dev)"
    by (simp add: block_u_def Let_def case_prod_beta)
  have inv: "kept_or_not_negative (load_shared bsx (pixel_u w h ?origin) (depth_map_output dev) ?T)
      (fst ?st)"
    unfolding block_iterations_u_def Let_def
    by (rule sub_iterations_u_inv) (simp add: kept_or_not_negative_refl)
  show ?thesis
    unfolding out using assms inv
    by (rule block_write_not_negative)
       (auto simp: output_write_u_def case_prod_beta split: if_splits)
qed

lemma block_w_ok:
  assumes "holes_not_negative tex w h (depth_map_output dev)"
  shows "holes_not_negative tex w h (depth_map_output (block_w bsx bsy chk tex g thr w h b dev))"
proof -
  let ?origin = "tile_origin (block_coordinates dev) b"
  let ?T = "block_threads bsx bsy"
  let ?st = "block_iterations_w bsx bsy chk tex g thr w h b dev"
  have out: "depth_map_output (block_w bsx bsy chk tex g thr w h b dev) =
      apply_writes (concat (map (output_write_w bsx bsy tex w h ?origin (fst ?st)) ?T))
        (depth_map_output dev)"
    by (simp add: block_w_def Let_def case_prod_beta)
  have inv: "kept_or_not_negative (load_shared bsx (pixel_w w h ?origin) (depth_map_output dev) ?T)
      (fst ?st)"
    unfolding block_iterations_w_def Let_def
    by (rule sub_iterations_w_inv) (simp add: kept_or_not_negative_refl)
  show ?thesis
    unfolding out using assms inv
    by (rule block_write_not_negative)
       (auto simp: output_write_w_def case_prod_beta split: if_splits)
qed

lemma launch_diffusion_ok:
  assumes "holes_not_negative tex w h (depth_map_output dev)"
  shows "holes_not_negative tex w h (depth_map_output (launch_diffusion uw tex g thr w h chk n dev))"
proof -
  have u: "holes_not_negative tex w h
      (depth_map_output (fold (block_u 32 32 chk tex thr w h) bs d))"
    if "holes_not_negative tex w h (depth_map_output d)" for bs d
    using that by (induction bs arbitrary: d) (simp_all add: block_u_ok)
  have v: "holes_not_negative tex w h
      (depth_map_output (fold (block_w 32 32 chk tex g thr w h) bs d))"
    if "holes_not_negative tex w h (depth_map_output d)" for bs d
    using that by (induction bs arbitrary: d) (simp_all add: block_w_ok)
  from u [OF assms] v [OF assms] show ?thesis
    by (simp add: launch_diffusion_def ConvolutionInpaintingKernel_def
        ConvolutionInpaintingKernelWithWeighting_def)
qed

text \<open>After the initialisation a hole of a non-negative input holds zero.\<close>

lemma hole_input_zero:
  assumes "is_finite s" "is_nonneg (tex x y)" "kIsPixelToInpaint tex x y"
  shows "depth_input s tex x y = Fin 0"
proof -
  from assms(2) obtain v where v: "tex x y = Fin v" "0 \<le> v" by (auto simp: is_nonneg_iff)
  from assms(1) obtain c where c: "s = Fin c" by (auto simp: is_finite_iff)
  from assms(3) v have "v = 0" by (simp add: kIsPixelToInpaint_def)
  with v c show ?thesis by (simp add: depth_input_def)
qed

lemma initialize_ok:
  assumes "w < 4294967296" "h < 4294967296" "is_finite s"
    and "\<forall>x y. 0 \<le> x \<and> x < w \<and> 0 \<le> y \<and> y < h \<longrightarrow> is_nonneg (tex x y)"
  shows "holes_not_negative tex w h (depth_map_output (fst (initialize s tex w h dev cpu0)))"
  unfolding holes_not_negative_def
proof (intro allI impI)
  fix y x
  assume r: "0 \<le> x \<and> x < w \<and> 0 \<le> y \<and> y < h \<and> kIsPixelToInpaint tex x y"
  then have "depth_map_output (fst (initialize s tex w h dev cpu0)) (y, x) = depth_input s tex x y"
    using assms(1,2) by (intro initialize_output) simp_all
  moreover from r assms(3,4) have "depth_input s tex x y = Fin 0"
    by (intro hole_input_zero) simp_all
  ultimately show "not_negative (depth_map_output (fst (initialize s tex w h dev cpu0)) (y, x))"
    by simp
qed

lemma inpaint_ok:
  assumes "w < 4294967296" "h < 4294967296" "is_finite s"
    and "\<forall>x y. 0 \<le> x \<and> x < w \<and> 0 \<le> y \<and> y < h \<longrightarrow> is_nonneg (tex x y)"
    and "InpaintDepthMapWithConvolutionCUDA uw m thr s g tex w h dev cpu0 = Inr r"
  shows "holes_not_negative tex w h (depth_map_output (device_after r))"
proof -
  have 1: "holes_not_negative tex w h (depth_map_output (fst (initialize s tex w h dev cpu0)))"
    using assms(1-4) by (rule initialize_ok)
  from assms(5) show ?thesis
  proof (rule run_cases)
    assume "r = \<lparr>iterations_returned = 0,
               pixel_count = pixel_to_inpaint_count (snd (initialize s tex w h dev cpu0)),
               device_after = fst (initialize s tex w h dev cpu0), launches = []\<rparr>"
    with 1 show ?thesis by simp
  next
    fix res
    assume l: "inpaint_iterations (launch_diffusion uw tex g thr w h) m
           (active_block_count (snd (initialize s tex w h dev cpu0))) 0 (- 9999)
           (upload_tiles (snd (initialize s tex w h dev cpu0))
              (fst (initialize s tex w h dev cpu0))) [] = Inr res"
      and r: "r = \<lparr>iterations_returned = fst res,
               pixel_count = pixel_to_inpaint_count (snd (initialize s tex w h dev cpu0)),
               device_after = fst (snd res), launches = snd (snd res)\<rparr>"
    have "holes_not_negative tex w h (depth_map_output (fst (snd res)))"
      by (rule loop_device_invariant [where I = "\<lambda>d. holes_not_negative tex w h (depth_map_output d)",
            OF _ l])
         (simp_all add: launch_diffusion_ok 1)
    with r show ?thesis by simp
  qed
qed

section \<open>Blocks that see only zeros\<close>

lemma upto_0_3: "[0..3::int] = [0, 1, 2, 3]"
  by (simp add: upto.simps)

lemma active_pixels_nonneg: "0 \<le> active_pixels thr cs"
  unfolding active_pixels_def by (induction cs) simp_all

lemma active_pixels_zero_iff: "active_pixels thr cs = 0 \<longleftrightarrow> (\<forall>c\<in>set cs. \<not> fgt c thr)"
proof (induction cs)
  case Nil
  show ?case by (simp add: active_pixels_def)
next
  case (Cons c cs)
  have "active_pixels thr (c # cs) = (if fgt c thr then 1 else 0) + active_pixels thr cs"
    by (simp add: active_pixels_def)
  with Cons active_pixels_nonneg [of thr cs] show ?case by auto
qed

lemma change_flag_iff:
  "change_flag thr cs = (if \<exists>c\<in>set cs. fgt c thr then 1 else 0)"
proof -
  have "0 < active_pixels thr cs \<longleftrightarrow> (\<exists>c\<in>set cs. fgt c thr)"
    using active_pixels_nonneg [of thr cs] active_pixels_zero_iff [of thr cs] by auto
  then show ?thesis by (simp add: change_flag_def)
qed

text \<open>A block whose shared memory holds only zeros changes nothing and sets no flag.\<close>

lemma accumulate_u_zero:
  assumes "\<forall>j. sh j = Fin 0"
  shows "accumulate_u bsx bsy tex w h origin sh t = (Fin 0, Fin 0)"
  using assms
  by (simp add: accumulate_u_def neighbours_u_def neighbour_u_def fbool_def case_prod_beta Let_def)

lemma sub_iteration_u_zero:
  assumes "\<forall>j. sh j = Fin 0" "0 \<le> e"
  shows "fst (sub_iteration_u bsx bsy chk tex (Fin e) w h origin b i (sh, fl)) = sh \<and>
         snd (sub_iteration_u bsx bsy chk tex (Fin e) w h origin b i (sh, fl)) =
           (if chk then fl(b := 0) else fl)"
proof -
  have w: "shared_write_u bsx bsy tex w h origin sh t = []" for t
    by (simp add: shared_write_u_def accumulate_u_zero [OF assms(1)] case_prod_beta)
  have c: "\<not> fgt (change_u bsx bsy chk tex w h origin i sh t) (Fin e)" for t
    using assms
    by (simp add: change_u_def new_depth_u_def accumulate_u_zero [OF assms(1)] case_prod_beta
        Let_def signed_inf_def fsub_def)
  have wz: "concat (map (shared_write_u bsx bsy tex w h origin sh) ts) = []" for ts
    by (simp add: w)
  have cz: "change_flag (Fin e) (map (change_u bsx bsy chk tex w h origin i sh) ts) = 0" for ts
    by (simp add: change_flag_iff c)
  show ?thesis
    unfolding sub_iteration_u_def Let_def case_prod_conv wz cz by simp
qed

lemma block_iterations_u_zero:
  assumes "\<forall>j. sh j = Fin 0" "0 \<le> e"
  shows "fst (fold (sub_iteration_u bsx bsy True tex (Fin e) w h origin b) [0, 1, 2, 3] (sh, fl)) = sh \<and>
         snd (fold (sub_iteration_u bsx bsy True tex (Fin e) w h origin b) [0, 1, 2, 3] (sh, fl)) b = 0"
proof -
  have s: "sub_iteration_u bsx bsy True tex (Fin e) w h origin b i (sh, fl') = (sh, fl'(b := 0))" for i fl'
    using sub_iteration_u_zero [OF assms, of bsx bsy True tex w h origin b i fl']
    by (simp add: prod_eq_iff)
  show ?thesis by (simp add: s)
qed

lemma load_shared_zero:
  assumes "\<forall>t\<in>set ts. buffer (snd (pixel t), fst (pixel t)) = Fin 0"
  shows "load_shared bsx pixel buffer ts j = Fin 0"
  unfolding load_shared_def
  by (rule apply_writes_pred) (use assms in auto)

lemma block_u_zero:
  assumes "\<forall>t\<in>set (block_threads bsx bsy).
      depth_map_output dev (snd (pixel_u w h (tile_origin (block_coordinates dev) b) t),
                            fst (pixel_u w h (tile_origin (block_coordinates dev) b) t)) = Fin 0"
    and "0 \<le> e"
  shows "depth_map_output (block_u bsx bsy True tex (Fin e) w h b dev) = depth_map_output dev \<and>
         max_change (block_u bsx bsy True tex (Fin e) w h b dev) = (max_change dev)(b := 0)"
proof -
  let ?origin = "tile_origin (block_coordinates dev) b"
  let ?T = "block_threads bsx bsy"
  let ?sh0 = "load_shared bsx (pixel_u w h ?origin) (depth_map_output dev) ?T"
  have z: "\<forall>j. ?sh0 j = Fin 0"
    by (intro allI load_shared_zero assms(1))
  have s: "sub_iteration_u bsx bsy True tex (Fin e) w h ?origin b i (?sh0, fl') = (?sh0, fl'(b := 0))" for i fl'
    using sub_iteration_u_zero [OF z assms(2), of bsx bsy True tex w h ?origin b i fl']
    by (simp add: prod_eq_iff)
  have it: "block_iterations_u bsx bsy True tex (Fin e) w h b dev = (?sh0, (max_change dev)(b := 0))"
    by (simp add: block_iterations_u_def Let_def kIterationsPerKernelCall_def upto_0_3 s)
  have "apply_writes (concat (map (output_write_u bsx bsy tex w h ?origin ?sh0) ?T))
      (depth_map_output dev) p = depth_map_output dev p" for p
  proof -
    let ?ws = "concat (map (output_write_u bsx bsy tex w h ?origin ?sh0) ?T)"
    have "v = depth_map_output dev p" if "(p, v) \<in> set ?ws" for v
    proof -
      from that obtain t where t: "t \<in> set ?T" "(p, v) \<in> set (output_write_u bsx bsy tex w h ?origin ?sh0 t)"
        by auto
      from t(2) have "p = (snd (pixel_u w h ?origin t), fst (pixel_u w h ?origin t))" "v = Fin 0"
        by (auto simp: output_write_u_def z case_prod_beta split: if_splits)
      with assms(1) t(1) show ?thesis by simp
    qed
    with apply_writes_cases [of ?ws "depth_map_output dev" p] show ?thesis by auto
  qed
  then show ?thesis
    by (simp add: block_u_def Let_def it fun_eq_iff)
qed

lemma kernel_u_zero:
  assumes "\<forall>p. depth_map_output dev p = Fin 0" "0 \<le> e"
  shows "depth_map_output (ConvolutionInpaintingKernel bsx bsy True n tex (Fin e) w h dev) =
           depth_map_output dev \<and>
         (\<forall>b<n. max_change (ConvolutionInpaintingKernel bsx bsy True n tex (Fin e) w h dev) b = 0)"
proof -
  have "depth_map_output (fold (block_u bsx bsy True tex (Fin e) w h) [0..<n] dev) =
          depth_map_output dev \<and>
        (\<forall>b<n. max_change (fold (block_u bsx bsy True tex (Fin e) w h) [0..<n] dev) b = 0)"
  proof (induction n)
    case 0
    show ?case by simp
  next
    case (Suc n)
    let ?d = "fold (block_u bsx bsy True tex (Fin e) w h) [0..<n] dev"
    from Suc assms(1) have z: "\<forall>p. depth_map_output ?d p = Fin 0" by simp
    from block_u_zero [of bsx bsy ?d w h n e tex] z assms(2) Suc
    show ?case by (auto simp: less_Suc_eq)
  qed
  then show ?thesis by (simp add: ConvolutionInpaintingKernel_def)
qed


section \<open>The image of one hole\<close>

lemma length_block_threads: "length (block_threads bsx bsy) = nat bsx * nat bsy"
  by (simp add: block_threads_def length_concat comp_def sum_list_triv)

lemma init_block_coordinates:
  "block_coordinates (init_block bsx bsy gx s tex w h blk dev) =
     (block_coordinates dev)(nat (fst blk + snd blk * gx) := word_of_int (init_count bsx bsy s tex w h blk))"
  by (simp add: init_block_def Let_def init_count_def)

lemma count_bounds:
  "0 \<le> sum_list (map (\<lambda>r. if P r then (1::int) else 0) rs) \<and>
   sum_list (map (\<lambda>r. if P r then (1::int) else 0) rs) \<le> int (length rs) \<and>
   ((\<exists>r\<in>set rs. P r) \<longrightarrow> 0 < sum_list (map (\<lambda>r. if P r then (1::int) else 0) rs))"
  by (induction rs) auto

lemma init_count_pos:
  assumes "t \<in> set (block_threads bsx bsy)" "snd (init_thread bsx bsy s tex w h blk t)"
    and "nat bsx * nat bsy < 65536"
  shows "(word_of_int (init_count bsx bsy s tex w h blk) :: 16 word) \<noteq> 0"
proof -
  let ?rs = "map (init_thread bsx bsy s tex w h blk) (block_threads bsx bsy)"
  have "\<exists>r\<in>set ?rs. snd r" using assms(1,2) by auto
  with count_bounds [of snd ?rs]
  have "0 < init_count bsx bsy s tex w h blk" "init_count bsx bsy s tex w h blk \<le> int (length ?rs)"
    by (simp_all add: init_count_def)
  moreover have "length ?rs < 65536" using assms(3) by (simp add: length_block_threads)
  ultimately have "0 < init_count bsx bsy s tex w h blk" "init_count bsx bsy s tex w h blk < 65536"
    by linarith+
  then have "uint (word_of_int (init_count bsx bsy s tex w h blk) :: 16 word) =
      init_count bsx bsy s tex w h blk"
    by (simp add: uint_word_of_int)
  with \<open>0 < init_count bsx bsy s tex w h blk\<close> show ?thesis by auto
qed

lemma initialize_frame:
  assumes "0 \<le> w" "w < 4294967296" "0 \<le> h" "h < 4294967296"
    and "\<not> (0 \<le> snd p \<and> snd p < w \<and> 0 \<le> fst p \<and> fst p < h)"
  shows "depth_map_output (fst (initialize s tex w h dev cpu0)) p = depth_map_output dev p"
proof -
  have u: "u32 w = w" "u32 h = h" using assms by (simp_all add: u32_id)
  have "p \<notin> fst ` set (concat (map (init_writes bsx bsy s tex w h) bs))" for bsx bsy bs
  proof
    assume "p \<in> fst ` set (concat (map (init_writes bsx bsy s tex w h) bs))"
    then obtain v blk t where "(p, v) \<in> set (fst (init_thread bsx bsy s tex w h blk t))"
      by (auto simp: init_writes_def)
    from init_thread_write [OF this] assms(5) show False by (simp add: u)
  qed
  then show ?thesis
    by (simp add: initialize_def Let_def ConvolutionInpaintingInitializeVariablesKernel_def
        init_kernel_output apply_writes_untouched)
qed

text \<open>The all-hole image of one pixel.\<close>

lemma all_holes_output:
  "depth_map_output (fst (initialize (Fin 1) tex_zero 1 1 dev_zero cpu_zero)) p = Fin 0"
proof (cases "0 \<le> snd p \<and> snd p < 1 \<and> 0 \<le> fst p \<and> fst p < 1")
  case True
  then have "p = (0, 0)" by (cases p) auto
  with initialize_output [of 0 1 0 1 "Fin 1" tex_zero dev_zero cpu_zero] show ?thesis
    by (simp add: depth_input_def tex_zero_def)
next
  case False
  with initialize_frame [of 1 1 p "Fin 1" tex_zero dev_zero cpu_zero] show ?thesis
    by (simp add: dev_zero_def)
qed

lemma grid_blocks_1_1: "grid_blocks 1 1 = [(0, 0)]"
  by (simp add: grid_blocks_def upto.simps)

lemma tile_scan_1_1: "tile_scan (Suc 0) (Suc 0) = [(0, 0)]"
  by (simp add: tile_scan_def)

lemma all_holes_active:
  "active_block_count (snd (initialize (Fin 1) tex_zero 1 1 dev_zero cpu_zero)) = 1"
proof -
  have t: "(4, 4) \<in> set (block_threads 32 32)" by (simp add: block_threads_iff)
  have a: "snd (init_thread 32 32 (Fin 1) tex_zero 1 1 (0, 0) (4, 4))"
    by (simp add: init_thread_def Let_def kIterationsPerKernelCall_def u32_def
        thread_is_active_def depth_input_def tex_zero_def feq_def)
  from init_count_pos [OF t a]
  have "(word_of_int (init_count 32 32 (Fin 1) tex_zero 1 1 (0, 0)) :: 16 word) \<noteq> 0" by simp
  then have "tile_active (block_coordinates
      (fold (init_block 32 32 1 (Fin 1) tex_zero 1 1) [(0, 0)] dev_zero)) 1 (0, 0)"
    by (simp add: tile_active_def init_block_coordinates word_greater_zero_iff)
  then show ?thesis
    by (simp add: initialize_def Let_def ConvolutionInpaintingInitializeVariablesKernel_def
        kBlockWidth_def kBlockHeight_def kIterationsPerKernelCall_def GetBlockCount_def
        grid_blocks_1_1 tile_scan_1_1 compact_blocks_def compact_step_active)
qed

lemma all_holes_first_launch:
  "depth_map_output (launch_diffusion False tex_zero grad_zero (Fin (1 / 100)) 1 1 True 1
     (upload_tiles (snd (initialize (Fin 1) tex_zero 1 1 dev_zero cpu_zero))
        (fst (initialize (Fin 1) tex_zero 1 1 dev_zero cpu_zero)))) p = Fin 0 \<and>
   (\<forall>b<1. max_change (launch_diffusion False tex_zero grad_zero (Fin (1 / 100)) 1 1 True 1
     (upload_tiles (snd (initialize (Fin 1) tex_zero 1 1 dev_zero cpu_zero))
        (fst (initialize (Fin 1) tex_zero 1 1 dev_zero cpu_zero)))) b = 0)"
  using kernel_u_zero [of "upload_tiles (snd (initialize (Fin 1) tex_zero 1 1 dev_zero cpu_zero))
        (fst (initialize (Fin 1) tex_zero 1 1 dev_zero cpu_zero))" "1 / 100" 32 32 1 tex_zero 1 1]
  by (simp add: launch_diffusion_def all_holes_output)

lemma all_holes_loop:
  "inpaint_iterations (launch_diffusion False tex_zero grad_zero (Fin (1 / 100)) 1 1) 100 1 0 (- 9999)
     (upload_tiles (snd (initialize (Fin 1) tex_zero 1 1 dev_zero cpu_zero))
        (fst (initialize (Fin 1) tex_zero 1 1 dev_zero cpu_zero))) [] =
   Inr (4, launch_diffusion False tex_zero grad_zero (Fin (1 / 100)) 1 1 True 1
            (upload_tiles (snd (initialize (Fin 1) tex_zero 1 1 dev_zero cpu_zero))
               (fst (initialize (Fin 1) tex_zero 1 1 dev_zero cpu_zero))),
        [launch_entry (launch_diffusion False tex_zero grad_zero (Fin (1 / 100)) 1 1) 1 0 (- 9999)
           (upload_tiles (snd (initialize (Fin 1) tex_zero 1 1 dev_zero cpu_zero))
              (fst (initialize (Fin 1) tex_zero 1 1 dev_zero cpu_zero)))])"
  by (rule loop_first_converged) (use all_holes_first_launch in simp_all)

lemma all_holes_result:
  "\<not> isl all_holes_run \<and> iterations_returned (projr all_holes_run) = 4 \<and>
   depth_map_output (device_after (projr all_holes_run)) (0, 0) = Fin 0 \<and>
   length (launches (projr all_holes_run)) = 1"
  using all_holes_first_launch [of "(0, 0)"]
  by (simp add: all_holes_run_def run_loop_count [OF all_holes_active _ all_holes_loop])

section \<open>The flag of a tile after a launch that checks convergence\<close>

lemma upto_0_2: "[0..2::int] = [0, 1, 2]"
  by (simp add: upto.simps)

lemma sub_iteration_u_flags:
  "snd (sub_iteration_u bsx bsy chk tex thr w h origin b i (sh, fl)) =
     (if chk
      then fl(b := change_flag thr (map (change_u bsx bsy chk tex w h origin i sh) (block_threads bsx bsy)))
      else fl)"
  by (simp add: sub_iteration_u_def Let_def)

lemma sub_iteration_w_flags:
  "snd (snd (sub_iteration_w bsx bsy chk tex g thr w h origin b i (sh, ws, fl))) =
     (if chk \<and> i = 3
      then fl(b := change_flag thr (map (change_w bsx bsy tex w h origin sh ws) (block_threads bsx bsy)))
      else fl)"
  by (simp add: sub_iteration_w_def Let_def kIterationsPerKernelCall_def)

lemma block_u_flag:
  "max_change (block_u bsx bsy True tex thr w h b dev) b =
     change_flag thr (final_changes_u bsx bsy tex thr w h b dev)"
proof -
  let ?f = "sub_iteration_u bsx bsy True tex thr w h (tile_origin (block_coordinates dev) b) b"
  let ?st0 = "(load_shared bsx (pixel_u w h (tile_origin (block_coordinates dev) b))
      (depth_map_output dev) (block_threads bsx bsy), max_change dev)"
  let ?st = "fold ?f [0, 1, 2] ?st0"
  have "block_iterations_u bsx bsy True tex thr w h b dev = ?f 3 ?st"
    by (simp add: block_iterations_u_def Let_def kIterationsPerKernelCall_def upto_0_3)
  also have "\<dots> = ?f 3 (fst ?st, snd ?st)" by simp
  finally have "snd (block_iterations_u bsx bsy True tex thr w h b dev) b =
      change_flag thr (map (change_u bsx bsy True tex w h (tile_origin (block_coordinates dev) b) 3
        (fst ?st)) (block_threads bsx bsy))"
    by (simp only: sub_iteration_u_flags if_True fun_upd_same)
  then show ?thesis
    by (simp add: block_u_def Let_def case_prod_beta final_changes_u_def
        kIterationsPerKernelCall_def upto_0_2)
qed

lemma block_w_flag:
  "max_change (block_w bsx bsy True tex g thr w h b dev) b =
     change_flag thr (final_changes_w bsx bsy tex g thr w h b dev)"
proof -
  let ?f = "sub_iteration_w bsx bsy True tex g thr w h (tile_origin (block_coordinates dev) b) b"
  let ?st0 = "(load_shared bsx (pixel_w w h (tile_origin (block_coordinates dev) b))
      (depth_map_output dev) (block_threads bsx bsy),
      load_weights bsx g w h (tile_origin (block_coordinates dev) b) (depth_map_output dev)
        (block_threads bsx bsy), max_change dev)"
  let ?st = "fold ?f [0, 1, 2] ?st0"
  have "block_iterations_w bsx bsy True tex g thr w h b dev = ?f 3 ?st"
    by (simp add: block_iterations_w_def Let_def kIterationsPerKernelCall_def upto_0_3)
  also have "\<dots> = ?f 3 (fst ?st, fst (snd ?st), snd (snd ?st))" by simp
  finally have "snd (snd (block_iterations_w bsx bsy True tex g thr w h b dev)) b =
      change_flag thr (map (change_w bsx bsy tex w h (tile_origin (block_coordinates dev) b)
        (fst ?st) (fst (snd ?st))) (block_threads bsx bsy))"
    by (simp only: sub_iteration_w_flags simp_thms if_True fun_upd_same)
  then show ?thesis
    by (simp add: block_w_def Let_def case_prod_beta final_changes_w_def
        kIterationsPerKernelCall_def upto_0_2)
qed

text \<open>A block writes the flag of its own tile only.\<close>

lemma block_u_flag_other:
  assumes "j \<noteq> b"
  shows "max_change (block_u bsx bsy chk tex thr w h b dev) j = max_change dev j"
proof -
  have "snd (fold (sub_iteration_u bsx bsy chk tex thr w h origin b) is st) j = snd st j"
    for origin "is" st
  proof (induction "is" arbitrary: st)
    case Nil
    show ?case by simp
  next
    case (Cons i "is")
    obtain sh fl where st: "st = (sh, fl)" by (cases st)
    show ?case using assms by (simp add: Cons st sub_iteration_u_flags)
  qed
  then show ?thesis
    by (simp add: block_u_def Let_def case_prod_beta block_iterations_u_def)
qed

lemma block_w_flag_other:
  assumes "j \<noteq> b"
  shows "max_change (block_w bsx bsy chk tex g thr w h b dev) j = max_change dev j"
proof -
  have "snd (snd (fold (sub_iteration_w bsx bsy chk tex g thr w h origin b) is st)) j =
      snd (snd st) j"
    for origin "is" st
  proof (induction "is" arbitrary: st)
    case Nil
    show ?case by simp
  next
    case (Cons i "is")
    obtain sh ws fl where st: "st = (sh, ws, fl)" by (cases st)
    show ?case using assms by (simp add: Cons st sub_iteration_w_flags)
  qed
  then show ?thesis
    by (simp add: block_w_def Let_def case_prod_beta block_iterations_w_def)
qed

lemma fold_blocks_flag:
  assumes "\<And>b d. max_change (blk b d) b = F b d"
    and "\<And>b j d. j \<noteq> b \<Longrightarrow> max_change (blk b d) j = max_change d j"
    and "b < n"
  shows "max_change (fold blk [0..<n] dev) b = F b (fold blk [0..<b] dev)"
  using assms(3)
proof (induction n)
  case 0
  then show ?case by simp
next
  case (Suc n)
  show ?case
  proof (cases "b = n")
    case True
    then show ?thesis by (simp add: assms(1))
  next
    case False
    with Suc have "b < n" by simp
    with Suc.IH False show ?thesis by (simp add: assms(2))
  qed
qed

lemma launch_flag:
  assumes "b < n"
  shows "max_change (launch_diffusion uw tex g thr w h True n dev) b =
         change_flag thr (final_changes uw tex g thr w h b dev)"
proof (cases uw)
  case True
  from fold_blocks_flag [where blk = "block_w 32 32 True tex g thr w h"
      and F = "\<lambda>b d. change_flag thr (final_changes_w 32 32 tex g thr w h b d)", OF _ _ assms]
  show ?thesis
    by (simp add: True launch_diffusion_def ConvolutionInpaintingKernelWithWeighting_def
        final_changes_def block_start_def block_w_flag block_w_flag_other)
next
  case False
  from fold_blocks_flag [where blk = "block_u 32 32 True tex thr w h"
      and F = "\<lambda>b d. change_flag thr (final_changes_u 32 32 tex thr w h b d)", OF _ _ assms]
  show ?thesis
    by (simp add: False launch_diffusion_def ConvolutionInpaintingKernel_def
        final_changes_def block_start_def block_u_flag block_u_flag_other)
qed

lemma launch_flags_zero:
  "(\<forall>b<n. max_change (launch_diffusion uw tex g thr w h True n dev) b = 0) \<longleftrightarrow>
   no_change_exceeds uw tex g thr w h n dev"
  by (auto simp: launch_flag change_flag_iff no_change_exceeds_def)

text \<open>With a negative threshold every tile keeps its flag set.\<close>

lemma negative_threshold_flag:
  assumes "b < n" "c < 0"
  shows "max_change (launch_diffusion False tex g (Fin c) w h True n dev) b = 1"
proof -
  let ?d = "block_start False tex g (Fin c) w h b dev"
  have t: "(0, 0) \<in> set (block_threads 32 32)" by (simp add: block_threads_iff)
  have "change_u 32 32 True tex w h origin i sh (0, 0) = Fin 0" for origin i sh
    by (simp add: change_u_def kOutput_u_def kIterationsPerKernelCall_def case_prod_beta)
  then have "Fin 0 \<in> (\<lambda>t. change_u 32 32 True tex w h origin i sh t) ` set (block_threads 32 32)"
    for origin i sh
    using t by (metis image_eqI)
  then have "Fin 0 \<in> set (final_changes_u 32 32 tex (Fin c) w h b ?d)"
    by (simp add: final_changes_u_def Let_def)
  with assms(2) have "\<exists>x\<in>set (final_changes False tex g (Fin c) w h b dev). fgt x (Fin c)"
    by (auto simp: final_changes_def intro!: bexI [of _ "Fin 0"])
  with assms(1) show ?thesis by (simp add: launch_flag change_flag_iff)
qed

text \<open>When every checked launch leaves a flag set, the largest budget ends in an overflow.\<close>

lemma loop_overflows:
  assumes "\<And>dev. \<not> (\<forall>j<n. max_change (launch True n dev) j = 0)"
  shows "schedule i lc \<Longrightarrow> i \<le> 2147483644 \<Longrightarrow> 4 dvd i \<Longrightarrow>
         inpaint_iterations launch 2147483647 n i lc dev tr = Inl SignedOverflow"
proof (induction "nat (2147483647 - i)" arbitrary: i lc dev tr rule: less_induct)
  case less
  have lt: "i < 2147483647" using less.prems by simp
  have sub: "int_ok (i - lc)"
    using less.prems(1,2) unfolding schedule_def int_ok_def by presburger
  show ?case
  proof (cases "int_ok (i + 4)")
    case False
    with lt show ?thesis by (simp add: loop_overflow_add)
  next
    case True
    with less.prems(3) have n: "i + 4 \<le> 2147483644" "4 dvd i + 4"
      unfolding int_ok_def by presburger+
    show ?thesis
    proof (cases "25 \<le> i - lc")
      case False
      with less.prems(1) have "schedule (i + 4) lc" by (rule schedule_step_unchecked)
      with less.hyps [of "i + 4" lc "launch False n dev" "tr @ [launch_entry launch n i lc dev]"]
        n lt sub True False
      show ?thesis by (simp add: loop_continue_unchecked)
    next
      case chk: True
      with less.prems(1) have "schedule (i + 4) i" by (rule schedule_step_checked)
      with less.hyps [of "i + 4" i "launch True n dev" "tr @ [launch_entry launch n i lc dev]"]
        n lt sub True chk assms [of dev]
      show ?thesis by (simp add: loop_continue_checked)
    qed
  qed
qed

lemma endless_run_overflows: "endless_run = Inl SignedOverflow"
proof -
  let ?launch = "launch_diffusion False tex_zero grad_zero (Fin (- 1)) 1 1"
  have "\<not> (\<forall>j<1. max_change (?launch True 1 dev) j = 0)" for dev
    using negative_threshold_flag [of 0 1 "- 1" tex_zero grad_zero 1 1 dev] by auto
  then have "inpaint_iterations ?launch 2147483647 1 0 (- 9999)
      (upload_tiles (snd (initialize (Fin 1) tex_zero 1 1 dev_zero cpu_zero))
         (fst (initialize (Fin 1) tex_zero 1 1 dev_zero cpu_zero))) [] = Inl SignedOverflow"
    by (intro loop_overflows schedule_start) simp_all
  from run_loop_count [OF all_holes_active _ this] show ?thesis
    by (simp add: endless_run_def)
qed

section \<open>The image of one row: initialization and compaction\<close>

lemma row_output:
  "depth_map_output (fst row_init) p = (if p = (0, 0) then Fin 10 else Fin 0)"
proof (cases "0 \<le> snd p \<and> snd p < 48 \<and> 0 \<le> fst p \<and> fst p < 1")
  case True
  then have p: "p = (0, snd p)" by (cases p) auto
  from True initialize_output [of "snd p" 48 0 1 "Fin 1" tex_row dev_zero cpu_zero]
  have "depth_map_output (fst row_init) (0, snd p) = depth_input (Fin 1) tex_row (snd p) 0"
    by (simp add: row_init_def)
  then have "depth_map_output (fst row_init) p = depth_input (Fin 1) tex_row (snd p) 0"
    using p by simp
  with p show ?thesis
    by (cases p) (auto simp: depth_input_def tex_row_def)
next
  case False
  with initialize_frame [of 48 1 p "Fin 1" tex_row dev_zero cpu_zero] show ?thesis
    by (cases p) (auto simp: dev_zero_def row_init_def)
qed

lemma grid_blocks_2_1: "grid_blocks 2 1 = [(0, 0), (1, 0)]"
  by (simp add: grid_blocks_def upto.simps)

lemma tile_scan_2_1: "tile_scan 2 (Suc 0) = [(0, 0), (Suc 0, 0)]"
  by (simp add: tile_scan_def upt_rec)

lemma upt_0_2: "[0..<2] = [0, 1]"
  by (simp add: upt_rec)

lemma active_tiles_2: "active_tiles 2 coords = [(coords 0, coords 1), (coords 2, coords 3)]"
  unfolding active_tiles_def upt_0_2 by simp

lemma row_compaction:
  "active_block_count (snd row_init) = 2 \<and>
   active_tiles 2 (block_coordinates_cpu (snd row_init)) = [(0, 0), (24, 0)]"
proof -
  let ?act = "block_coordinates (fold (init_block 32 32 2 (Fin 1) tex_row 48 1) [(0, 0), (1, 0)] dev_zero)"
  have t0: "(5, 4) \<in> set (block_threads 32 32)" and t1: "(4, 4) \<in> set (block_threads 32 32)"
    by (simp_all add: block_threads_iff)
  have a0: "snd (init_thread 32 32 (Fin 1) tex_row 48 1 (0, 0) (5, 4))"
    by (simp add: init_thread_def Let_def kIterationsPerKernelCall_def u32_def
        thread_is_active_def depth_input_def tex_row_def feq_def)
  have a1: "snd (init_thread 32 32 (Fin 1) tex_row 48 1 (1, 0) (4, 4))"
    by (simp add: init_thread_def Let_def kIterationsPerKernelCall_def u32_def
        thread_is_active_def depth_input_def tex_row_def feq_def)
  have c0: "(word_of_int (init_count 32 32 (Fin 1) tex_row 48 1 (0, 0)) :: 16 word) \<noteq> 0"
    using init_count_pos [OF t0 a0] by simp
  have c1: "(word_of_int (init_count 32 32 (Fin 1) tex_row 48 1 (1, 0)) :: 16 word) \<noteq> 0"
    using init_count_pos [OF t1 a1] by simp
  have act: "tile_active ?act 2 (0, 0)" "tile_active ?act 2 (Suc 0, 0)"
    using c0 c1 by (simp_all add: tile_active_def init_block_coordinates word_greater_zero_iff)
  let ?c0 = "\<lparr>active_block_count = 0, pixel_to_inpaint_count = 0, block_coordinates_cpu = cpu_zero\<rparr>"
  have f: "filter (tile_active ?act 2) (tile_scan 2 (Suc 0)) = [(0, 0), (Suc 0, 0)]"
    using act by (simp add: tile_scan_2_1)
  have c: "snd row_init = fold (compact_step ?act 2 24 24) (tile_scan 2 (Suc 0)) ?c0"
    by (simp add: row_init_def initialize_def Let_def ConvolutionInpaintingInitializeVariablesKernel_def
        kBlockWidth_def kBlockHeight_def kIterationsPerKernelCall_def GetBlockCount_def
        grid_blocks_2_1 compact_blocks_def)
  have n: "active_block_count (snd row_init) = 2"
    unfolding c fold_compact_count f by simp
  have "active_tiles (active_block_count ?c0 + length (filter (tile_active ?act 2) (tile_scan 2 (Suc 0))))
          (block_coordinates_cpu (snd row_init)) =
        active_tiles (active_block_count ?c0) (block_coordinates_cpu ?c0) @
          map (tile_origin_words 24 24) (filter (tile_active ?act 2) (tile_scan 2 (Suc 0)))"
    unfolding c by (rule fold_compact_tiles)
  then have "active_tiles (Suc (Suc 0)) (block_coordinates_cpu (snd row_init)) = [(0, 0), (24, 0)]"
    unfolding f by (simp add: active_tiles_0 tile_origin_words_def)
  then have "active_tiles 2 (block_coordinates_cpu (snd row_init)) = [(0, 0), (24, 0)]"
    by (simp only: numeral_2_eq_2)
  with n show ?thesis by simp
qed

lemma row_start_output: "depth_map_output row_start p = (if p = (0, 0) then Fin 10 else Fin 0)"
  by (simp add: row_start_def row_output)

lemma row_start_tiles: "active_tiles 2 (block_coordinates row_start) = [(0, 0), (24, 0)]"
  using upload_tiles_active [of "snd row_init" "fst row_init"] row_compaction
  by (simp add: row_start_def)

lemma row_origins:
  "tile_origin (block_coordinates row_start) 0 = (0, 0)"
  "tile_origin (block_coordinates row_start) 1 = (24, 0)"
  using row_start_tiles
  by (simp_all add: active_tiles_2 tile_origin_def)

lemma clamp_unsigned_row:
  assumes "0 \<le> tx" "tx < 32"
  shows "clamp_unsigned 48 0 tx = (if tx < 4 then 47 else tx - 4)"
    and "clamp_unsigned 48 24 tx = min 47 (20 + tx)"
    and "clamp_unsigned 1 0 tx = 0"
proof -
  have "(tx - 4) mod 4294967296 = (tx - 4 + 4294967296) mod 4294967296"
    by (simp only: mod_add_self2)
  also have "\<dots> = tx - 4 + 4294967296" if "tx < 4"
    by (rule mod_pos_pos_trivial) (use assms that in simp_all)
  finally have "(tx - 4) mod 4294967296 = (if tx < 4 then tx - 4 + 4294967296 else tx - 4)"
    using assms by simp
  then show "clamp_unsigned 48 0 tx = (if tx < 4 then 47 else tx - 4)"
    and "clamp_unsigned 1 0 tx = 0"
    using assms
    by (auto simp: clamp_unsigned_def u32_def s32_def Let_def kIterationsPerKernelCall_def)
  have "(24 + tx - 4) mod 4294967296 = 20 + tx"
    using assms by simp
  then show "clamp_unsigned 48 24 tx = min 47 (20 + tx)"
    using assms
    by (auto simp: clamp_unsigned_def u32_def s32_def Let_def kIterationsPerKernelCall_def)
qed

lemma pixel_u_row:
  assumes "t \<in> set (block_threads 32 32)"
  shows "pixel_u 48 1 (0, 0) t = (if fst t < 4 then 47 else fst t - 4, 0)"
    and "pixel_u 48 1 (24, 0) t = (min 47 (20 + fst t), 0)"
  using assms clamp_unsigned_row [of "fst t"] clamp_unsigned_row(3) [of "snd t"]
  by (simp_all add: pixel_u_def block_threads_iff)


section \<open>The image of one row: a sub-iteration\<close>

lemma row_hole: "kIsPixelToInpaint tex_row x 0 \<longleftrightarrow> x \<noteq> 0"
  by (simp add: kIsPixelToInpaint_def tex_row_def)

lemma neighbour_u_off:
  "is_finite (sh j) \<Longrightarrow> neighbour_u sh (False, k, j) a = (fadd (fst a) (Fin 0), fadd (snd a) (Fin 0))"
  by (auto simp: neighbour_u_def fbool_def is_finite_iff case_prod_beta Let_def)

lemma neighbour_u_axis:
  "sh j = Fin d \<Longrightarrow> d = 0 \<or> d = 10 \<Longrightarrow>
   neighbour_u sh (g, 5931249 / 33554432, j) a =
     (if g \<and> d = 10
      then (fadd (fst a) (Fin (7414061 / 4194304)), fadd (snd a) (Fin (5931249 / 33554432)))
      else (fadd (fst a) (Fin 0), fadd (snd a) (Fin 0)))"
  using round32_w_axis round32_w_axis_10
  by (auto simp: neighbour_u_def fbool_def case_prod_beta Let_def w_axis_value)

lemma row_sums:
  "round32 (7414061 / 4194304) = Fin (7414061 / 4194304)"
  "round32 (7414061 / 2097152) = Fin (7414061 / 2097152)"
  "round32 (5931249 / 33554432) = Fin (5931249 / 33554432)"
  "round32 (5931249 / 16777216) = Fin (5931249 / 16777216)"
  "round32 (59312488 / 5931249) = Fin 10"
  by (subst round32_at [where e = 0], simp_all add: round_even_def)
     (subst round32_at [where e = 1], simp_all add: round_even_def,
      subst round32_at [where e = "- 3"], simp_all add: round_even_def,
      subst round32_at [where e = "- 2"], simp_all add: round_even_def,
      subst round32_at [where e = 3], simp_all add: round_even_def)

lemma accumulate_u_row:
  assumes "pixel_u w 1 origin t = (x, 0)" "kIsPixelToInpaint tex x 0" "interior bsx bsy t"
    and "\<forall>j\<in>{shared_mem_index bsx t - 1 - bsx, shared_mem_index bsx t - bsx,
             shared_mem_index bsx t + 1 - bsx, shared_mem_index bsx t - 1 + bsx,
             shared_mem_index bsx t + bsx, shared_mem_index bsx t + 1 + bsx}. is_finite (sh j)"
    and "sh (shared_mem_index bsx t - 1) = Fin dl" "dl = 0 \<or> dl = 10"
    and "sh (shared_mem_index bsx t + 1) = Fin dr" "dr = 0 \<or> dr = 10"
  shows "fgt (snd (accumulate_u bsx bsy tex w 1 origin sh t)) (Fin 0) =
           (0 < x \<and> dl = 10 \<or> x < w - 1 \<and> dr = 10) \<and>
         (0 < x \<and> dl = 10 \<or> x < w - 1 \<and> dr = 10 \<longrightarrow>
            fdiv (fst (accumulate_u bsx bsy tex w 1 origin sh t))
                 (snd (accumulate_u bsx bsy tex w 1 origin sh t)) = Fin 10)"
proof -
  note l = neighbour_u_axis [where sh = sh and j = "shared_mem_index bsx t - 1", OF assms(5,6)]
  note r = neighbour_u_axis [where sh = sh and j = "shared_mem_index bsx t + 1", OF assms(7,8)]
  show ?thesis
    using assms(2,3,4)
    by (simp add: accumulate_u_def assms(1) neighbours_u_def neighbour_u_off l r
        w_axis_value row_sums)
qed


lemma row_profile_cell:
  assumes "row_profile k sh" "0 \<le> tx" "tx < 32" "0 \<le> ty" "ty < 32"
  shows "sh (tx + 32 * ty) =
          (if 4 \<le> tx \<and> tx \<le> 4 + (if 0 < ty \<and> ty < 31 then int k else 0) then Fin 10
           else Fin 0)"
  using assms by (simp add: row_profile_def)

lemma row_profile_finite:
  assumes "row_profile k sh" "0 \<le> tx" "tx < 32" "0 \<le> ty" "ty < 32"
  shows "is_finite (sh (tx + 32 * ty))"
  using row_profile_cell [OF assms] by (simp add: is_finite_def)

lemma row_profile_step:
  assumes "row_profile k sh" "k \<le> 3"
  shows "row_profile (Suc k)
           (fst (sub_iteration_u 32 32 True tex_row thr 48 1 (0, 0) b i (sh, fl)))"
  unfolding row_profile_def
proof (intro allI impI)
  fix tx ty :: int
  assume r: "0 \<le> tx \<and> tx < 32 \<and> 0 \<le> ty \<and> ty < 32"
  let ?sh' = "fst (sub_iteration_u 32 32 True tex_row thr 48 1 (0, 0) b i (sh, fl))"
  let ?t = "(tx, ty)"
  let ?k = "if 0 < ty \<and> ty < 31 then int k else 0"
  have t: "?t \<in> set (block_threads 32 32)" using r by (simp add: block_threads_iff)
  have idx: "shared_mem_index 32 ?t = tx + 32 * ty" by (simp add: shared_mem_index_def)
  let ?x = "if tx < 4 then 47 else tx - 4"
  have px: "pixel_u 48 1 (0, 0) ?t = (?x, 0)"
    using pixel_u_row(1) [OF t] by simp
  note c = sub_iteration_u_cell [OF t, of True tex_row thr 48 1 "(0, 0)" b i sh fl,
      unfolded idx px fst_conv snd_conv]
  have old: "sh (tx + 32 * ty) = (if 4 \<le> tx \<and> tx \<le> 4 + ?k then Fin 10 else Fin 0)"
    using row_profile_cell [OF assms(1)] r by simp
  show "?sh' (tx + 32 * ty) =
      (if 4 \<le> tx \<and> tx \<le> 4 + (if 0 < ty \<and> ty < 31 then int (Suc k) else 0) then Fin 10 else Fin 0)"
  proof (cases "tx = 4 \<or> \<not> interior 32 32 ?t")
    case True
    then have "accumulate_u 32 32 tex_row 48 1 (0, 0) sh ?t = (Fin 0, Fin 0)"
      by (auto simp: accumulate_u_def px row_hole)
    with c have "?sh' (tx + 32 * ty) = sh (tx + 32 * ty)" by simp
    with old True r assms(2) show ?thesis by (auto simp: interior_def)
  next
    case False
    then have int: "interior 32 32 ?t" and tx: "tx \<noteq> 4" by simp_all
    from int have b: "0 < tx" "tx < 31" "0 < ty" "ty < 31" by (simp_all add: interior_def)
    from tx have hole: "kIsPixelToInpaint tex_row ?x 0" by (auto simp: row_hole)
    have fin: "is_finite (sh (tx + dx + 32 * (ty + dy)))"
      if "dx \<in> {- 1, 0, 1}" "dy \<in> {- 1, 1}" for dx dy
      using that b by (intro row_profile_finite [OF assms(1)]) auto
    have f6: "\<forall>j\<in>{shared_mem_index 32 ?t - 1 - 32, shared_mem_index 32 ?t - 32,
             shared_mem_index 32 ?t + 1 - 32, shared_mem_index 32 ?t - 1 + 32,
             shared_mem_index 32 ?t + 32, shared_mem_index 32 ?t + 1 + 32}. is_finite (sh j)"
      using fin [of "- 1" "- 1"] fin [of 0 "- 1"] fin [of 1 "- 1"]
        fin [of "- 1" 1] fin [of 0 1] fin [of 1 1]
      by (simp add: idx algebra_simps)
    let ?dl = "if 4 \<le> tx - 1 \<and> tx - 1 \<le> 4 + int k then 10 else 0 :: real"
    let ?dr = "if 4 \<le> tx + 1 \<and> tx + 1 \<le> 4 + int k then 10 else 0 :: real"
    have dl: "sh (shared_mem_index 32 ?t - 1) = Fin ?dl"
      using row_profile_cell [OF assms(1), of "tx - 1" ty] b by (simp add: idx algebra_simps)
    have dr: "sh (shared_mem_index 32 ?t + 1) = Fin ?dr"
      using row_profile_cell [OF assms(1), of "tx + 1" ty] b by (simp add: idx algebra_simps)
    have "?dl = 0 \<or> ?dl = 10" "?dr = 0 \<or> ?dr = 10" by simp_all
    note acc = accumulate_u_row [OF px hole int f6 dl this(1) dr this(2)]
    show ?thesis
      using b tx assms(2) old acc
      unfolding c
      by (auto simp: hole split: if_splits)
  qed
qed

section \<open>The image of one row: the first block\<close>

lemma row_shared_state: "row_shared k = fst (row_state k)"
  by (simp add: row_shared_def)

lemma row_state_Suc:
  "row_state (Suc k) =
     sub_iteration_u 32 32 True tex_row (Fin (1 / 100)) 48 1 (0, 0) 0 (int k)
       (row_shared k, snd (row_state k))"
  by (simp add: row_state_def row_shared_def row_origins)

lemma row_profile_load: "row_profile 0 (row_shared 0)"
  unfolding row_profile_def
proof (intro allI impI)
  fix tx ty :: int
  assume r: "0 \<le> tx \<and> tx < 32 \<and> 0 \<le> ty \<and> ty < 32"
  let ?sh0 = "load_shared 32 (pixel_u 48 1 (0, 0)) (depth_map_output row_start) (block_threads 32 32)"
  have s: "row_shared 0 = ?sh0" by (simp add: row_shared_def row_state_def row_origins)
  have t: "(tx, ty) \<in> set (block_threads 32 32)" using r by (simp add: block_threads_iff)
  from load_shared_at [OF t, of "pixel_u 48 1 (0, 0)" "depth_map_output row_start"]
  show "row_shared 0 (tx + 32 * ty) =
      (if 4 \<le> tx \<and> tx \<le> 4 + (if 0 < ty \<and> ty < 31 then int 0 else 0) then Fin 10 else Fin 0)"
    using r by (auto simp: s shared_mem_index_def pixel_u_row(1) [OF t] row_start_output)
qed

lemma row_profile_shared: "k \<le> 4 \<Longrightarrow> row_profile k (row_shared k)"
proof (induction k)
  case 0
  show ?case by (rule row_profile_load)
next
  case (Suc k)
  then have "row_profile k (row_shared k)" "k \<le> 3" by simp_all
  from row_profile_step [OF this] show ?case
    by (simp add: row_shared_state [of "Suc k"] row_state_Suc)
qed

lemma row_cell:
  assumes "k \<le> 4" "0 \<le> tx" "tx < 32"
  shows "row_shared k (tx + 128) = (if 4 \<le> tx \<and> tx \<le> 4 + int k then Fin 10 else Fin 0)"
  using row_profile_cell [OF row_profile_shared [OF assms(1)], of tx 4] assms(2,3) by simp

text \<open>The thread of pixel \<open>(4, 0)\<close> in the fourth sub-iteration.\<close>

lemma row_thread_8:
  "pixel_u 48 1 (0, 0) (8, 4) = (4, 0)"
  "kOutput_u 32 32 48 1 (0, 0) (8, 4)"
  "row_shared 3 (shared_mem_index 32 (8, 4)) = Fin 0"
  "new_depth_u 32 32 tex_row 48 1 (0, 0) (row_shared 3) (8, 4) = Fin 10"
  "change_u 32 32 True tex_row 48 1 (0, 0) 3 (row_shared 3) (8, 4) = PInf"
proof -
  have t: "(8, 4) \<in> set (block_threads 32 32)" by (simp add: block_threads_iff)
  show px: "pixel_u 48 1 (0, 0) (8, 4) = (4, 0)"
    using pixel_u_row(1) [OF t] by simp
  show out: "kOutput_u 32 32 48 1 (0, 0) (8, 4)"
    by (simp add: kOutput_u_def kIterationsPerKernelCall_def u32_def)
  have idx: "shared_mem_index 32 (8, 4) = 8 + 128" by (simp add: shared_mem_index_def)
  show old: "row_shared 3 (shared_mem_index 32 (8, 4)) = Fin 0"
    unfolding idx using row_cell [of 3 8] by simp
  note p = row_profile_shared [of 3, simplified]
  have fin: "is_finite (row_shared 3 (8 + dx + 32 * (4 + dy)))"
    if "dx \<in> {- 1, 0, 1}" "dy \<in> {- 1, 1}" for dx dy :: int
    using that by (intro row_profile_finite [OF p]) auto
  have f6: "\<forall>j\<in>{shared_mem_index 32 (8, 4) - 1 - 32, shared_mem_index 32 (8, 4) - 32,
           shared_mem_index 32 (8, 4) + 1 - 32, shared_mem_index 32 (8, 4) - 1 + 32,
           shared_mem_index 32 (8, 4) + 32, shared_mem_index 32 (8, 4) + 1 + 32}.
         is_finite (row_shared 3 j)"
    using fin [of "- 1" "- 1"] fin [of 0 "- 1"] fin [of 1 "- 1"]
      fin [of "- 1" 1] fin [of 0 1] fin [of 1 1]
    by (simp add: idx)
  have l: "row_shared 3 (shared_mem_index 32 (8, 4) - 1) = Fin 10"
    using row_cell [of 3 7] by (simp add: idx)
  have r: "row_shared 3 (shared_mem_index 32 (8, 4) + 1) = Fin 0"
    using row_cell [of 3 9] by (simp add: idx)
  have hole: "kIsPixelToInpaint tex_row 4 0" by (simp add: row_hole)
  have int: "interior 32 32 (8, 4)" by (simp add: interior_def)
  from accumulate_u_row [OF px hole int f6 l _ r]
  show new: "new_depth_u 32 32 tex_row 48 1 (0, 0) (row_shared 3) (8, 4) = Fin 10"
    by (simp add: new_depth_u_def case_prod_beta)
  show "change_u 32 32 True tex_row 48 1 (0, 0) 3 (row_shared 3) (8, 4) = PInf"
    by (simp add: change_u_def px out hole new old kIterationsPerKernelCall_def fsub_def
        signed_inf_def)
qed

lemma upt_0_4: "map int [0..<4] = [0, 1, 2, 3]"
  by (simp add: upt_rec)

lemma row_block_iterations:
  "block_iterations_u 32 32 True tex_row (Fin (1 / 100)) 48 1 0 row_start = row_state 4"
  by (simp add: block_iterations_u_def row_state_def Let_def kIterationsPerKernelCall_def
      upto_0_3 upt_0_4)

lemma row_flag_0: "snd (row_state 4) 0 = 1"
proof -
  have t: "(8, 4) \<in> set (block_threads 32 32)" by (simp add: block_threads_iff)
  have "fgt (change_u 32 32 True tex_row 48 1 (0, 0) 3 (row_shared 3) (8, 4)) (Fin (1 / 100))"
    by (simp add: row_thread_8)
  with t have "\<exists>c\<in>set (map (change_u 32 32 True tex_row 48 1 (0, 0) 3 (row_shared 3))
      (block_threads 32 32)). fgt c (Fin (1 / 100))"
    by auto
  then have "change_flag (Fin (1 / 100)) (map (change_u 32 32 True tex_row 48 1 (0, 0) 3 (row_shared 3))
      (block_threads 32 32)) = 1"
    by (simp only: change_flag_iff if_True)
  moreover have "row_state 4 = sub_iteration_u 32 32 True tex_row (Fin (1 / 100)) 48 1 (0, 0) 0 3
       (row_shared 3, snd (row_state 3))"
    using row_state_Suc [of 3] by (simp add: eval_nat_numeral)
  ultimately show ?thesis by (simp add: sub_iteration_u_flags)
qed

section \<open>The image of one row: the run\<close>

lemma row_block_0_flag: "max_change row_block_0 0 = 1"
  by (simp add: row_block_0_def block_u_def Let_def row_block_iterations case_prod_beta row_flag_0)

lemma row_block_0_coordinates: "block_coordinates row_block_0 = block_coordinates row_start"
  by (simp add: row_block_0_def)

lemma row_block_0_output:
  assumes "20 \<le> x"
  shows "depth_map_output row_block_0 (0, x) = Fin 0"
proof -
  let ?ws = "concat (map (output_write_u 32 32 tex_row 48 1 (0, 0) (row_shared 4))
                       (block_threads 32 32))"
  have out: "depth_map_output row_block_0 = apply_writes ?ws (depth_map_output row_start)"
    by (simp add: row_block_0_def block_u_def Let_def row_block_iterations case_prod_beta
        row_origins row_shared_state)
  have "v = Fin 0" if "((0, x), v) \<in> set ?ws" for v
  proof -
    from that obtain t where t: "t \<in> set (block_threads 32 32)"
      and w: "((0, x), v) \<in> set (output_write_u 32 32 tex_row 48 1 (0, 0) (row_shared 4) t)"
      by auto
    from t have r: "0 \<le> fst t" "fst t < 32" "0 \<le> snd t" "snd t < 32"
      by (auto simp: block_threads_iff)
    from w have k: "kOutput_u 32 32 48 1 (0, 0) t"
      and p: "pixel_u 48 1 (0, 0) t = (x, 0)"
      and v: "v = row_shared 4 (shared_mem_index 32 t)"
      by (auto simp: output_write_u_def case_prod_beta prod_eq_iff split: if_splits)
    from k r have y: "snd t = 4" and f: "4 \<le> fst t"
      by (auto simp: kOutput_u_def kIterationsPerKernelCall_def u32_def)
    from p pixel_u_row(1) [OF t] f have x: "fst t = x + 4"
      by (auto split: if_splits)
    have "shared_mem_index 32 t = fst t + 128"
      by (simp add: shared_mem_index_def y)
    with v row_cell [of 4 "fst t"] r x assms show ?thesis by simp
  qed
  with apply_writes_cases [of ?ws "depth_map_output row_start" "(0, x)"] assms
  show ?thesis by (auto simp: out row_start_output)
qed

lemma row_block_1:
  "max_change (block_u 32 32 True tex_row (Fin (1 / 100)) 48 1 1 row_block_0) =
     (max_change row_block_0)(1 := 0)"
proof -
  have o: "tile_origin (block_coordinates row_block_0) 1 = (24, 0)"
    by (simp only: row_block_0_coordinates row_origins)
  have "\<forall>t\<in>set (block_threads 32 32).
      depth_map_output row_block_0
        (snd (pixel_u 48 1 (tile_origin (block_coordinates row_block_0) 1) t),
         fst (pixel_u 48 1 (tile_origin (block_coordinates row_block_0) 1) t)) = Fin 0"
  proof
    fix t assume t: "t \<in> set (block_threads 32 32)"
    then have "0 \<le> fst t" by (auto simp: block_threads_iff)
    then show "depth_map_output row_block_0
        (snd (pixel_u 48 1 (tile_origin (block_coordinates row_block_0) 1) t),
         fst (pixel_u 48 1 (tile_origin (block_coordinates row_block_0) 1) t)) = Fin 0"
      unfolding o pixel_u_row(2) [OF t] by (simp add: row_block_0_output)
  qed
  from block_u_zero [OF this, of "1 / 100" tex_row] show ?thesis by simp
qed

lemma row_first_launch:
  "map (max_change (launch_diffusion False tex_row g (Fin (1 / 100)) 48 1 True 2 row_start)) [0..<2]
     = [1, 0]"
proof -
  have "launch_diffusion False tex_row g (Fin (1 / 100)) 48 1 True 2 row_start =
      block_u 32 32 True tex_row (Fin (1 / 100)) 48 1 1 row_block_0"
    by (simp add: launch_diffusion_def ConvolutionInpaintingKernel_def upt_0_2 row_block_0_def)
  then have "max_change (launch_diffusion False tex_row g (Fin (1 / 100)) 48 1 True 2 row_start) =
      (max_change row_block_0)(1 := 0)"
    by (simp only: row_block_1)
  then show ?thesis
    by (simp add: row_block_0_flag upt_0_2)
qed


lemma row_block_0_output_low:
  assumes "0 \<le> x" "x \<le> 4"
  shows "depth_map_output row_block_0 (0, x) = Fin 10"
proof (cases "x = 0")
  case True
  let ?ws = "concat (map (output_write_u 32 32 tex_row 48 1 (0, 0) (row_shared 4))
                       (block_threads 32 32))"
  have out: "depth_map_output row_block_0 = apply_writes ?ws (depth_map_output row_start)"
    by (simp add: row_block_0_def block_u_def Let_def row_block_iterations case_prod_beta
        row_origins row_shared_state)
  have "(0, 0) \<notin> fst ` set ?ws"
    by (auto simp: output_write_u_def case_prod_beta row_hole split: if_splits)
  then show ?thesis
    using True by (simp add: out apply_writes_untouched row_start_output)
next
  case False
  let ?ws = "concat (map (output_write_u 32 32 tex_row 48 1 (0, 0) (row_shared 4))
                       (block_threads 32 32))"
  have out: "depth_map_output row_block_0 = apply_writes ?ws (depth_map_output row_start)"
    by (simp add: row_block_0_def block_u_def Let_def row_block_iterations case_prod_beta
        row_origins row_shared_state)
  have t: "(x + 4, 4) \<in> set (block_threads 32 32)"
    using assms by (simp add: block_threads_iff)
  have k: "kOutput_u 32 32 48 1 (0, 0) (x + 4, 4)"
    using assms by (simp add: kOutput_u_def kIterationsPerKernelCall_def u32_def)
  have p: "pixel_u 48 1 (0, 0) (x + 4, 4) = (x, 0)"
    using pixel_u_row(1) [OF t] assms by simp
  have c: "row_shared 4 (shared_mem_index 32 (x + 4, 4)) = Fin 10"
    using row_cell [of 4 "x + 4"] assms by (simp add: shared_mem_index_def)
  have "((0, x), Fin 10) \<in> set (output_write_u 32 32 tex_row 48 1 (0, 0) (row_shared 4) (x + 4, 4))"
    using False by (simp add: output_write_u_def p k row_hole c)
  with t have w: "((0, x), Fin 10) \<in> set ?ws" by auto
  have "v = Fin 10" if "((0, x), v) \<in> set ?ws" for v
  proof -
    from that obtain t where t: "t \<in> set (block_threads 32 32)"
      and w: "((0, x), v) \<in> set (output_write_u 32 32 tex_row 48 1 (0, 0) (row_shared 4) t)"
      by auto
    from t have r: "0 \<le> fst t" "fst t < 32" "0 \<le> snd t" "snd t < 32"
      by (auto simp: block_threads_iff)
    from w have k: "kOutput_u 32 32 48 1 (0, 0) t"
      and p: "pixel_u 48 1 (0, 0) t = (x, 0)"
      and v: "v = row_shared 4 (shared_mem_index 32 t)"
      by (auto simp: output_write_u_def case_prod_beta prod_eq_iff split: if_splits)
    from k r have y: "snd t = 4" and f: "4 \<le> fst t"
      by (auto simp: kOutput_u_def kIterationsPerKernelCall_def u32_def)
    from p pixel_u_row(1) [OF t] f have x: "fst t = x + 4"
      by (auto split: if_splits)
    have "shared_mem_index 32 t = fst t + 128"
      by (simp add: shared_mem_index_def y)
    with v row_cell [of 4 "fst t"] r x assms show ?thesis by simp
  qed
  with w show ?thesis
    unfolding out by (intro apply_writes_functional)
qed

lemma row_first_launch_output:
  "depth_map_output (launch_diffusion False tex_row g (Fin (1 / 100)) 48 1 True 2 row_start) =
     depth_map_output row_block_0"
proof -
  have o: "tile_origin (block_coordinates row_block_0) 1 = (24, 0)"
    by (simp only: row_block_0_coordinates row_origins)
  have z: "\<forall>t\<in>set (block_threads 32 32).
      depth_map_output row_block_0
        (snd (pixel_u 48 1 (tile_origin (block_coordinates row_block_0) 1) t),
         fst (pixel_u 48 1 (tile_origin (block_coordinates row_block_0) 1) t)) = Fin 0"
  proof
    fix t assume t: "t \<in> set (block_threads 32 32)"
    then have "0 \<le> fst t" by (auto simp: block_threads_iff)
    then show "depth_map_output row_block_0
        (snd (pixel_u 48 1 (tile_origin (block_coordinates row_block_0) 1) t),
         fst (pixel_u 48 1 (tile_origin (block_coordinates row_block_0) 1) t)) = Fin 0"
      unfolding o pixel_u_row(2) [OF t] by (simp add: row_block_0_output)
  qed
  have "launch_diffusion False tex_row g (Fin (1 / 100)) 48 1 True 2 row_start =
      block_u 32 32 True tex_row (Fin (1 / 100)) 48 1 1 row_block_0"
    by (simp add: launch_diffusion_def ConvolutionInpaintingKernel_def upt_0_2 row_block_0_def)
  with block_u_zero [OF z, of "1 / 100" tex_row] show ?thesis by simp
qed

lemma row_flags_set:
  "\<not> (\<forall>j<2. max_change (launch_diffusion False tex_row g (Fin (1 / 100)) 48 1 True 2 row_start) j = 0)"
proof -
  have "max_change (launch_diffusion False tex_row g (Fin (1 / 100)) 48 1 True 2 row_start) 0 = 1"
    using row_first_launch [of g] by (simp add: upt_0_2)
  then show ?thesis by (auto intro: exI [of _ 0])
qed

lemma row_loop:
  "inpaint_iterations (launch_diffusion False tex_row g (Fin (1 / 100)) 48 1) 8 2 0 (- 9999)
     row_start [] =
   Inr (8, launch_diffusion False tex_row g (Fin (1 / 100)) 48 1 False 2
         (launch_diffusion False tex_row g (Fin (1 / 100)) 48 1 True 2 row_start),
    [launch_entry (launch_diffusion False tex_row g (Fin (1 / 100)) 48 1) 2 0 (- 9999) row_start,
     launch_entry (launch_diffusion False tex_row g (Fin (1 / 100)) 48 1) 2 4 0
       (launch_diffusion False tex_row g (Fin (1 / 100)) 48 1 True 2 row_start)])"
proof -
  let ?launch = "launch_diffusion False tex_row g (Fin (1 / 100)) 48 1"
  have "inpaint_iterations ?launch 8 2 0 (- 9999) row_start [] =
      inpaint_iterations ?launch 8 2 (0 + 4) 0 (?launch True 2 row_start)
        ([] @ [launch_entry ?launch 2 0 (- 9999) row_start])"
    by (rule loop_continue_checked) (use row_flags_set in \<open>simp_all add: int_ok_def\<close>)
  also have "\<dots> = inpaint_iterations ?launch 8 2 (4 + 4) 0
        (?launch False 2 (?launch True 2 row_start))
        ([launch_entry ?launch 2 0 (- 9999) row_start] @
         [launch_entry ?launch 2 4 0 (?launch True 2 row_start)])"
    using loop_continue_unchecked [of 4 8 0 ?launch 2 "?launch True 2 row_start"
        "[launch_entry ?launch 2 0 (- 9999) row_start]"]
    by (simp add: int_ok_def)
  also have "\<dots> = Inr (8, ?launch False 2 (?launch True 2 row_start),
        [launch_entry ?launch 2 0 (- 9999) row_start,
         launch_entry ?launch 2 4 0 (?launch True 2 row_start)])"
    by (simp add: loop_exit)
  finally show ?thesis .
qed

lemma row_run_launches:
  "\<not> isl row_run \<and>
   launches (projr row_run) =
    [launch_entry (launch_diffusion False tex_row grad_zero (Fin (1 / 100)) 48 1) 2 0 (- 9999)
       row_start,
     launch_entry (launch_diffusion False tex_row grad_zero (Fin (1 / 100)) 48 1) 2 4 0
       (launch_diffusion False tex_row grad_zero (Fin (1 / 100)) 48 1 True 2 row_start)] \<and>
   iterations_returned (projr row_run) = 8"
proof -
  have n: "active_block_count (snd (initialize (Fin 1) tex_row 48 1 dev_zero cpu_zero)) = 2"
    using row_compaction by (simp add: row_init_def)
  have l: "inpaint_iterations (launch_diffusion False tex_row grad_zero (Fin (1 / 100)) 48 1) 8 2 0
      (- 9999)
      (upload_tiles (snd (initialize (Fin 1) tex_row 48 1 dev_zero cpu_zero))
         (fst (initialize (Fin 1) tex_row 48 1 dev_zero cpu_zero))) [] =
    Inr (8, launch_diffusion False tex_row grad_zero (Fin (1 / 100)) 48 1 False 2
         (launch_diffusion False tex_row grad_zero (Fin (1 / 100)) 48 1 True 2 row_start),
    [launch_entry (launch_diffusion False tex_row grad_zero (Fin (1 / 100)) 48 1) 2 0 (- 9999) row_start,
     launch_entry (launch_diffusion False tex_row grad_zero (Fin (1 / 100)) 48 1) 2 4 0
       (launch_diffusion False tex_row grad_zero (Fin (1 / 100)) 48 1 True 2 row_start)])"
    using row_loop [of grad_zero] by (simp add: row_start_def row_init_def)
  show ?thesis
    by (simp add: row_run_def run_loop_count [OF n _ l])
qed

text \<open>The same image with a budget of 4 iterations: one launch.\<close>

lemma row_run_short_result:
  "\<not> isl row_run_short \<and> iterations_returned (projr row_run_short) = 4 \<and>
   length (launches (projr row_run_short)) = 1 \<and>
   (0 \<le> x \<and> x \<le> 4 \<longrightarrow> depth_map_output (device_after (projr row_run_short)) (0, x) = Fin 10)"
proof -
  let ?launch = "launch_diffusion False tex_row grad_zero (Fin (1 / 100)) 48 1"
  have n: "active_block_count (snd (initialize (Fin 1) tex_row 48 1 dev_zero cpu_zero)) = 2"
    using row_compaction by (simp add: row_init_def)
  have "inpaint_iterations ?launch 4 2 0 (- 9999) row_start [] =
      Inr (0 + 4, ?launch True 2 row_start, [] @ [launch_entry ?launch 2 0 (- 9999) row_start])"
    by (rule loop_last_checked) (simp_all add: int_ok_def)
  then have l: "inpaint_iterations ?launch 4 2 0 (- 9999)
      (upload_tiles (snd (initialize (Fin 1) tex_row 48 1 dev_zero cpu_zero))
         (fst (initialize (Fin 1) tex_row 48 1 dev_zero cpu_zero))) [] =
      Inr (4, ?launch True 2 row_start, [launch_entry ?launch 2 0 (- 9999) row_start])"
    by (simp add: row_start_def row_init_def)
  show ?thesis
    by (simp add: row_run_short_def run_loop_count [OF n _ l] row_first_launch_output
        row_block_0_output_low)
qed

text \<open>The same image with a budget of 32 iterations: eight launches.\<close>

lemma row_run_long_result:
  "\<not> isl row_run_long \<and> iterations_returned (projr row_run_long) = 32 \<and>
   length (launches (projr row_run_long)) = 8 \<and>
   launches (projr row_run_long) ! 0 =
     launch_entry (launch_diffusion False tex_row grad_zero (Fin (1 / 100)) 48 1) 2 0 (- 9999)
       row_start"
proof -
  let ?launch = "launch_diffusion False tex_row grad_zero (Fin (1 / 100)) 48 1"
  have n: "active_block_count (snd (initialize (Fin 1) tex_row 48 1 dev_zero cpu_zero)) = 2"
    using row_compaction by (simp add: row_init_def)
  have "\<exists>d tr. inpaint_iterations ?launch 32 2 0 (- 9999) row_start [] = Inr (32, d, tr) \<and>
      length tr = 8 \<and> tr ! 0 = launch_entry ?launch 2 0 (- 9999) row_start"
    using row_flags_set [of grad_zero]
    by (simp add: loop_continue_checked loop_continue_unchecked loop_last_checked int_ok_def)
  then obtain d tr where l: "inpaint_iterations ?launch 32 2 0 (- 9999)
      (upload_tiles (snd (initialize (Fin 1) tex_row 48 1 dev_zero cpu_zero))
         (fst (initialize (Fin 1) tex_row 48 1 dev_zero cpu_zero))) [] = Inr (32, d, tr)"
    and tr: "length tr = 8" "tr ! 0 = launch_entry ?launch 2 0 (- 9999) row_start"
    by (auto simp: row_start_def row_init_def)
  show ?thesis
    by (simp add: row_run_long_def run_loop_count [OF n _ l] tr)
qed

section \<open>The image with an overflowing depth\<close>

lemma big_input:
  "depth_input big_depth tex_big x y = (if x = 0 then PInf else Fin 0)"
proof -
  have "round32 (2 ^ 100 * 2 ^ 100) = PInf"
    by (subst round32_overflow) simp_all
  then show ?thesis by (simp add: depth_input_def tex_big_def big_depth_def)
qed

lemma big_output:
  "depth_map_output big_start p = (if p = (0, 0) then PInf else Fin 0)"
proof (cases "0 \<le> snd p \<and> snd p < 2 \<and> 0 \<le> fst p \<and> fst p < 1")
  case True
  then have p: "p = (0, snd p)" by (cases p) auto
  from True initialize_output [of "snd p" 2 0 1 big_depth tex_big dev_zero cpu_zero]
  have "depth_map_output big_start (0, snd p) = depth_input big_depth tex_big (snd p) 0"
    by (simp add: big_start_def)
  then have "depth_map_output big_start p = depth_input big_depth tex_big (snd p) 0"
    using p by simp
  with p show ?thesis
    by (cases p) (auto simp: big_input)
next
  case False
  with initialize_frame [of 2 1 p big_depth tex_big dev_zero cpu_zero] show ?thesis
    by (cases p) (auto simp: dev_zero_def big_start_def)
qed

lemma big_compaction:
  "active_block_count (snd (initialize big_depth tex_big 2 1 dev_zero cpu_zero)) = 1 \<and>
   tile_origin (block_coordinates big_start) 0 = (0, 0)"
proof -
  let ?init = "initialize big_depth tex_big 2 1 dev_zero cpu_zero"
  let ?act = "block_coordinates (fold (init_block 32 32 1 big_depth tex_big 2 1) [(0, 0)] dev_zero)"
  have t: "(5, 4) \<in> set (block_threads 32 32)" by (simp add: block_threads_iff)
  have a: "snd (init_thread 32 32 big_depth tex_big 2 1 (0, 0) (5, 4))"
    by (simp add: init_thread_def Let_def kIterationsPerKernelCall_def u32_def
        thread_is_active_def big_input feq_def)
  from init_count_pos [OF t a]
  have "(word_of_int (init_count 32 32 big_depth tex_big 2 1 (0, 0)) :: 16 word) \<noteq> 0" by simp
  then have act: "tile_active ?act 1 (0, 0)"
    by (simp add: tile_active_def init_block_coordinates word_greater_zero_iff)
  let ?c0 = "\<lparr>active_block_count = 0, pixel_to_inpaint_count = 0, block_coordinates_cpu = cpu_zero\<rparr>"
  have f: "filter (tile_active ?act 1) (tile_scan (Suc 0) (Suc 0)) = [(0, 0)]"
    using act by (simp add: tile_scan_1_1)
  have c: "snd ?init = fold (compact_step ?act 1 24 24) (tile_scan (Suc 0) (Suc 0)) ?c0"
    by (simp add: initialize_def Let_def ConvolutionInpaintingInitializeVariablesKernel_def
        kBlockWidth_def kBlockHeight_def kIterationsPerKernelCall_def GetBlockCount_def
        grid_blocks_1_1 compact_blocks_def)
  have n: "active_block_count (snd ?init) = 1"
    unfolding c fold_compact_count f by simp
  have "active_tiles (active_block_count ?c0 + length (filter (tile_active ?act 1) (tile_scan (Suc 0) (Suc 0))))
          (block_coordinates_cpu (snd ?init)) =
        active_tiles (active_block_count ?c0) (block_coordinates_cpu ?c0) @
          map (tile_origin_words 24 24) (filter (tile_active ?act 1) (tile_scan (Suc 0) (Suc 0)))"
    unfolding c by (rule fold_compact_tiles)
  then have "active_tiles (Suc 0) (block_coordinates_cpu (snd ?init)) = [(0, 0)]"
    unfolding f by (simp add: active_tiles_0 tile_origin_words_def)
  with upload_tiles_active [of "snd ?init" "fst ?init"] n
  have "active_tiles (Suc 0) (block_coordinates big_start) = [(0, 0)]"
    by (simp add: big_start_def)
  then have "tile_origin (block_coordinates big_start) 0 = (0, 0)"
    by (simp add: active_tiles_def tile_origin_def)
  with n show ?thesis by simp
qed

lemma clamp_unsigned_big:
  assumes "0 \<le> tx" "tx < 32"
  shows "clamp_unsigned 2 0 tx = (if tx = 4 then 0 else 1)"
proof -
  have "(tx - 4) mod 4294967296 = (tx - 4 + 4294967296) mod 4294967296"
    by (simp only: mod_add_self2)
  also have "\<dots> = tx - 4 + 4294967296" if "tx < 4"
    by (rule mod_pos_pos_trivial) (use assms that in simp_all)
  finally have "(tx - 4) mod 4294967296 = (if tx < 4 then tx - 4 + 4294967296 else tx - 4)"
    using assms by simp
  then show ?thesis
    using assms
    by (auto simp: clamp_unsigned_def u32_def s32_def Let_def kIterationsPerKernelCall_def)
qed

lemma pixel_u_big:
  assumes "t \<in> set (block_threads 32 32)"
  shows "pixel_u 2 1 (0, 0) t = (if fst t = 4 then 0 else 1, 0)"
  using assms clamp_unsigned_big [of "fst t"] clamp_unsigned_row(3) [of "snd t"]
  by (simp add: pixel_u_def block_threads_iff)

lemma big_hole: "kIsPixelToInpaint tex_big x 0 \<longleftrightarrow> x \<noteq> 0"
  by (simp add: kIsPixelToInpaint_def tex_big_def big_depth_def)

text \<open>
  The thread of the hole: its left neighbour holds the infinity and counts with the axis
  weight; the cell above that neighbour holds the infinity too, and although the bounds
  test gives it the weight 0, the product \<open>0 * \<infinity>\<close> enters the sum.
\<close>

lemma big_accumulate:
  assumes "big_column sh"
  shows "accumulate_u 32 32 tex_big 2 1 (0, 0) sh (5, 4) = (NaN, Fin (5931249 / 33554432))"
proof -
  have t: "(5, 4) \<in> set (block_threads 32 32)" by (simp add: block_threads_iff)
  have c: "sh 100 = PInf" "sh 132 = PInf"
    using assms [unfolded big_column_def, rule_format, of 3]
      assms [unfolded big_column_def, rule_format, of 4] by simp_all
  show ?thesis
    using pixel_u_big [OF t]
    by (simp add: accumulate_u_def big_hole interior_def neighbours_u_def neighbour_u_def
        shared_mem_index_def fbool_def Let_def c signed_inf_def w_axis_value row_sums)
qed

lemma big_step:
  assumes "big_column sh"
  shows "big_column (fst (sub_iteration_u 32 32 chk tex_big thr 2 1 (0, 0) b i (sh, fl)))"
    and "fst (sub_iteration_u 32 32 chk tex_big thr 2 1 (0, 0) b i (sh, fl)) 133 = NaN"
proof -
  show "big_column (fst (sub_iteration_u 32 32 chk tex_big thr 2 1 (0, 0) b i (sh, fl)))"
    unfolding big_column_def
  proof (intro allI impI)
    fix ty :: int
    assume r: "0 \<le> ty \<and> ty < 32"
    then have t: "(4, ty) \<in> set (block_threads 32 32)" by (simp add: block_threads_iff)
    from sub_iteration_u_cell [OF t, of chk tex_big thr 2 1 "(0, 0)" b i sh fl]
    show "fst (sub_iteration_u 32 32 chk tex_big thr 2 1 (0, 0) b i (sh, fl)) (4 + 32 * ty) = PInf"
      using assms r by (simp add: pixel_u_big [OF t] big_hole shared_mem_index_def big_column_def)
  qed
  have t: "(5, 4) \<in> set (block_threads 32 32)" by (simp add: block_threads_iff)
  from sub_iteration_u_cell [OF t, of chk tex_big thr 2 1 "(0, 0)" b i sh fl]
  show "fst (sub_iteration_u 32 32 chk tex_big thr 2 1 (0, 0) b i (sh, fl)) 133 = NaN"
    by (simp add: pixel_u_big [OF t] big_hole shared_mem_index_def big_accumulate [OF assms])
qed

lemma big_fold:
  "big_column (fst st) \<Longrightarrow>
   big_column (fst (fold (sub_iteration_u 32 32 chk tex_big thr 2 1 (0, 0) b) js st))"
proof (induction js arbitrary: st)
  case Nil
  then show ?case by simp
next
  case (Cons j js)
  from big_step(1) [of "fst st" chk thr b j "snd st"] Cons.prems
  have "big_column (fst (sub_iteration_u 32 32 chk tex_big thr 2 1 (0, 0) b j st))" by simp
  from Cons.IH [OF this] show ?case by simp
qed

lemma big_load:
  "big_column (load_shared 32 (pixel_u 2 1 (0, 0)) (depth_map_output big_start) (block_threads 32 32))"
  unfolding big_column_def
proof (intro allI impI)
  fix ty :: int
  assume r: "0 \<le> ty \<and> ty < 32"
  then have t: "(4, ty) \<in> set (block_threads 32 32)" by (simp add: block_threads_iff)
  from load_shared_at [OF t, of "pixel_u 2 1 (0, 0)" "depth_map_output big_start"]
  show "load_shared 32 (pixel_u 2 1 (0, 0)) (depth_map_output big_start) (block_threads 32 32)
      (4 + 32 * ty) = PInf"
    by (simp add: shared_mem_index_def pixel_u_big [OF t] big_output)
qed

lemma big_block_cell:
  "fst (block_iterations_u 32 32 chk tex_big thr 2 1 0 big_start) 133 = NaN"
proof -
  let ?f = "sub_iteration_u 32 32 chk tex_big thr 2 1 (0, 0) 0"
  let ?st = "(load_shared 32 (pixel_u 2 1 (0, 0)) (depth_map_output big_start) (block_threads 32 32),
              max_change big_start)"
  have "big_column (fst (fold ?f [0, 1, 2] ?st))"
    by (rule big_fold) (simp add: big_load)
  from big_step(2) [OF this, of chk thr 0 3 "snd (fold ?f [0, 1, 2] ?st)"]
  have "fst (fold ?f [0, 1, 2, 3] ?st) 133 = NaN" by simp
  then show ?thesis
    by (simp add: block_iterations_u_def Let_def kIterationsPerKernelCall_def upto_0_3
        big_compaction)
qed

lemma big_launch_output:
  "depth_map_output (launch_diffusion False tex_big g thr 2 1 chk 1 big_start) (0, 1) = NaN"
proof -
  let ?sh = "fst (block_iterations_u 32 32 chk tex_big thr 2 1 0 big_start)"
  let ?ws = "concat (map (output_write_u 32 32 tex_big 2 1 (0, 0) ?sh) (block_threads 32 32))"
  have l: "launch_diffusion False tex_big g thr 2 1 chk 1 big_start =
      block_u 32 32 chk tex_big thr 2 1 0 big_start"
    by (simp add: launch_diffusion_def ConvolutionInpaintingKernel_def)
  have out: "depth_map_output (block_u 32 32 chk tex_big thr 2 1 0 big_start) =
      apply_writes ?ws (depth_map_output big_start)"
    by (simp add: block_u_def Let_def case_prod_beta big_compaction)
  have t: "(5, 4) \<in> set (block_threads 32 32)" by (simp add: block_threads_iff)
  have k: "kOutput_u 32 32 2 1 (0, 0) (5, 4)"
    by (simp add: kOutput_u_def kIterationsPerKernelCall_def u32_def)
  have "((0, 1), NaN) \<in> set (output_write_u 32 32 tex_big 2 1 (0, 0) ?sh (5, 4))"
    using pixel_u_big [OF t]
    by (simp add: output_write_u_def k big_hole shared_mem_index_def big_block_cell)
  with t have w: "((0, 1), NaN) \<in> set ?ws" by auto
  have "v = NaN" if "((0, 1), v) \<in> set ?ws" for v
  proof -
    from that obtain t where t: "t \<in> set (block_threads 32 32)"
      and w: "((0, 1), v) \<in> set (output_write_u 32 32 tex_big 2 1 (0, 0) ?sh t)"
      by auto
    from t have r: "0 \<le> fst t" "fst t < 32" "0 \<le> snd t" "snd t < 32"
      by (auto simp: block_threads_iff)
    from w have k: "kOutput_u 32 32 2 1 (0, 0) t"
      and p: "pixel_u 2 1 (0, 0) t = (1, 0)"
      and v: "v = ?sh (shared_mem_index 32 t)"
      by (auto simp: output_write_u_def case_prod_beta prod_eq_iff split: if_splits)
    from k r have "snd t = 4" "4 \<le> fst t" "fst t < 6"
      by (auto simp: kOutput_u_def kIterationsPerKernelCall_def u32_def)
    with p pixel_u_big [OF t] have "snd t = 4" "fst t = 5"
      by (auto split: if_splits)
    then have "shared_mem_index 32 t = 133"
      by (simp add: shared_mem_index_def)
    with v show ?thesis by (simp add: big_block_cell)
  qed
  with w have "apply_writes ?ws (depth_map_output big_start) (0, 1) = NaN"
    by (intro apply_writes_functional)
  then show ?thesis unfolding l out .
qed

lemma big_run_result:
  "\<not> isl big_run \<and> iterations_returned (projr big_run) = 4 \<and>
   depth_map_output (device_after (projr big_run)) (0, 1) = NaN"
proof -
  let ?launch = "launch_diffusion False tex_big grad_zero (Fin (1 / 100)) 2 1"
  have n: "active_block_count (snd (initialize big_depth tex_big 2 1 dev_zero cpu_zero)) = 1"
    using big_compaction by simp
  have "inpaint_iterations ?launch 4 1 0 (- 9999) big_start [] =
      Inr (0 + 4, ?launch True 1 big_start, [] @ [launch_entry ?launch 1 0 (- 9999) big_start])"
    by (rule loop_last_checked) (simp_all add: int_ok_def)
  then have l: "inpaint_iterations ?launch 4 1 0 (- 9999)
      (upload_tiles (snd (initialize big_depth tex_big 2 1 dev_zero cpu_zero))
         (fst (initialize big_depth tex_big 2 1 dev_zero cpu_zero))) [] =
      Inr (4, ?launch True 1 big_start, [launch_entry ?launch 1 0 (- 9999) big_start])"
    by (simp add: big_start_def)
  have r: "big_run = Inr \<lparr>iterations_returned = 4,
      pixel_count = pixel_to_inpaint_count (snd (initialize big_depth tex_big 2 1 dev_zero cpu_zero)),
      device_after = ?launch True 1 big_start,
      launches = [launch_entry ?launch 1 0 (- 9999) big_start]\<rparr>"
    unfolding big_run_def by (simp add: run_loop_count [OF n _ l])
  show ?thesis
    unfolding r by (simp add: big_launch_output [unfolded One_nat_def])
qed

section \<open>The iteration count\<close>

lemma loop_result_range:
  assumes "inpaint_iterations launch m n 0 (- 9999) dev [] = Inr res"
  shows "4 dvd fst res \<and> 0 \<le> fst res \<and> fst res \<le> max 0 (round_up m 4)"
  using loop_return_bound [OF assms] by simp

text \<open>
  Claim C4, as stated: for every \<open>max_num_iterations\<close> the loop terminates and the
  returned count is at most \<open>max_num_iterations\<close> rounded up to the next multiple of 4.
  With the budget \<open>- 8\<close> the loop body never runs and the call returns 0, which exceeds
  \<open>- 8\<close>. With the budget \<open>INT_MAX\<close>, a negative threshold and one hole that stays a hole,
  every check finds the flag set, and the counter \<^verbatim>\<open>i\<close> reaches \<open>2147483644\<close>, where
  \<^verbatim>\<open>i += kIterationsPerKernelCall\<close> overflows the type \<^verbatim>\<open>int\<close>.
\<close>

theorem iteration_bound_counterexample:
  "\<not> isl negative_budget_run \<and>
   \<not> iterations_returned (projr negative_budget_run) \<le> round_up (- 8) 4 \<and>
   endless_run = Inl SignedOverflow"
proof -
  have r: "negative_budget_run = Inr \<lparr>iterations_returned = 0,
      pixel_count = pixel_to_inpaint_count (snd (initialize (Fin 1) tex_zero 1 1 dev_zero cpu_zero)),
      device_after = upload_tiles (snd (initialize (Fin 1) tex_zero 1 1 dev_zero cpu_zero))
                       (fst (initialize (Fin 1) tex_zero 1 1 dev_zero cpu_zero)),
      launches = []\<rparr>"
    unfolding negative_budget_run_def
    by (simp add: run_loop_count [OF all_holes_active _ loop_exit])
  show ?thesis
    unfolding r by (simp add: round_up_def endless_run_overflows)
qed

text \<open>
  Claim C4, amended: for a budget of at most \<open>INT_MAX - 3\<close> the call returns; and whenever
  it returns, the returned count is a non-negative multiple of 4 that is at most the larger
  of 0 and \<open>max_num_iterations\<close> rounded up to the next multiple of 4, and every launch is
  made at a counter below \<open>max_num_iterations\<close>.
\<close>

theorem iteration_bound:
  "(m \<le> 2147483644 \<longrightarrow>
      (\<exists>r'. InpaintDepthMapWithConvolutionCUDA uw m thr s g tex w h dev cpu0 = Inr r')) \<and>
   (InpaintDepthMapWithConvolutionCUDA uw m thr s g tex w h dev cpu0 = Inr r \<longrightarrow>
      4 dvd iterations_returned r \<and> 0 \<le> iterations_returned r \<and>
      iterations_returned r \<le> max 0 (round_up m 4) \<and>
      list_all (\<lambda>e. lr_iteration e < m) (launches r))"
proof (intro conjI impI)
  assume "m \<le> 2147483644"
  then show "\<exists>r'. InpaintDepthMapWithConvolutionCUDA uw m thr s g tex w h dev cpu0 = Inr r'"
    by (rule run_returns)
next
  assume "InpaintDepthMapWithConvolutionCUDA uw m thr s g tex w h dev cpu0 = Inr r"
  then have "4 dvd iterations_returned r \<and> 0 \<le> iterations_returned r \<and>
      iterations_returned r \<le> max 0 (round_up m 4) \<and>
      list_all (\<lambda>e. lr_iteration e < m) (launches r)"
  proof (rule run_cases)
    assume "r = \<lparr>iterations_returned = 0,
        pixel_count = pixel_to_inpaint_count (snd (initialize s tex w h dev cpu0)),
        device_after = fst (initialize s tex w h dev cpu0), launches = []\<rparr>"
    then show ?thesis by simp
  next
    fix res
    assume l: "inpaint_iterations (launch_diffusion uw tex g thr w h) m
           (active_block_count (snd (initialize s tex w h dev cpu0))) 0 (- 9999)
           (upload_tiles (snd (initialize s tex w h dev cpu0))
              (fst (initialize s tex w h dev cpu0))) [] = Inr res"
      and r: "r = \<lparr>iterations_returned = fst res,
               pixel_count = pixel_to_inpaint_count (snd (initialize s tex w h dev cpu0)),
               device_after = fst (snd res), launches = snd (snd res)\<rparr>"
    from loop_result_range [OF l] loop_iterations_below [OF l] r show ?thesis by simp
  qed
  then show "4 dvd iterations_returned r" "0 \<le> iterations_returned r"
    "iterations_returned r \<le> max 0 (round_up m 4)"
    "list_all (\<lambda>e. lr_iteration e < m) (launches r)"
    by simp_all
qed

theorem iteration_bound_witness:
  "(8 :: int) \<le> 2147483644 \<and> \<not> isl row_run \<and>
   4 dvd iterations_returned (projr row_run) \<and> 0 \<le> iterations_returned (projr row_run) \<and>
   iterations_returned (projr row_run) \<le> max 0 (round_up 8 4) \<and>
   list_all (\<lambda>e. lr_iteration e < 8) (launches (projr row_run))"
proof -
  note c = iteration_bound [of 8 False "Fin (1 / 100)" "Fin 1" grad_zero tex_row 48 1 dev_zero
      cpu_zero "projr row_run", folded row_run_def]
  have i: "\<not> isl row_run" using row_run_launches by simp
  then have "row_run = Inr (projr row_run)" by (cases row_run) simp_all
  with c i show ?thesis by simp
qed

section \<open>Overwriting a hole and the sign of the result\<close>

text \<open>The candidate of a hole of the row image in the first block.\<close>

lemma row_candidate:
  assumes "k \<le> 4" "5 \<le> tx" "tx \<le> 30"
  shows "fgt (snd (accumulate_u 32 32 tex_row 48 1 (0, 0) (row_shared k) (tx, 4))) (Fin 0) =
           (tx \<le> 5 + int k)"
    and "tx \<le> 5 + int k \<Longrightarrow>
         fdiv (fst (accumulate_u 32 32 tex_row 48 1 (0, 0) (row_shared k) (tx, 4)))
           (snd (accumulate_u 32 32 tex_row 48 1 (0, 0) (row_shared k) (tx, 4))) = Fin 10"
proof -
  have t: "(tx, 4) \<in> set (block_threads 32 32)"
    using assms by (simp add: block_threads_iff)
  have px: "pixel_u 48 1 (0, 0) (tx, 4) = (tx - 4, 0)"
    using pixel_u_row(1) [OF t] assms by simp
  have idx: "shared_mem_index 32 (tx, 4) = tx + 128" by (simp add: shared_mem_index_def)
  note p = row_profile_shared [OF assms(1)]
  have fin: "is_finite (row_shared k (tx + dx + 32 * (4 + dy)))"
    if "dx \<in> {- 1, 0, 1}" "dy \<in> {- 1, 1}" for dx dy :: int
    using that assms by (intro row_profile_finite [OF p]) auto
  have f6: "\<forall>j\<in>{shared_mem_index 32 (tx, 4) - 1 - 32, shared_mem_index 32 (tx, 4) - 32,
           shared_mem_index 32 (tx, 4) + 1 - 32, shared_mem_index 32 (tx, 4) - 1 + 32,
           shared_mem_index 32 (tx, 4) + 32, shared_mem_index 32 (tx, 4) + 1 + 32}.
         is_finite (row_shared k j)"
    using fin [of "- 1" "- 1"] fin [of 0 "- 1"] fin [of 1 "- 1"]
      fin [of "- 1" 1] fin [of 0 1] fin [of 1 1]
    by (simp add: idx algebra_simps)
  let ?dl = "if tx \<le> 5 + int k then 10 else 0 :: real"
  let ?dr = "if tx \<le> 3 + int k then 10 else 0 :: real"
  have l: "row_shared k (shared_mem_index 32 (tx, 4) - 1) = Fin ?dl"
    using row_cell [OF assms(1), of "tx - 1"] assms by (simp add: idx)
  have r: "row_shared k (shared_mem_index 32 (tx, 4) + 1) = Fin ?dr"
    using row_cell [OF assms(1), of "tx + 1"] assms by (simp add: idx)
  have hole: "kIsPixelToInpaint tex_row (tx - 4) 0" using assms by (simp add: row_hole)
  have int: "interior 32 32 (tx, 4)" using assms by (simp add: interior_def)
  have "?dl = 0 \<or> ?dl = 10" "?dr = 0 \<or> ?dr = 10" by simp_all
  note acc = accumulate_u_row [OF px hole int f6 l this(1) r this(2)]
  from acc assms
  show "fgt (snd (accumulate_u 32 32 tex_row 48 1 (0, 0) (row_shared k) (tx, 4))) (Fin 0) =
           (tx \<le> 5 + int k)"
    by (auto split: if_splits)
  from acc assms
  show "tx \<le> 5 + int k \<Longrightarrow>
         fdiv (fst (accumulate_u 32 32 tex_row 48 1 (0, 0) (row_shared k) (tx, 4)))
           (snd (accumulate_u 32 32 tex_row 48 1 (0, 0) (row_shared k) (tx, 4))) = Fin 10"
    by (auto split: if_splits)
qed

lemma accumulate_w_zero:
  assumes "\<forall>j. ws j = Fin 0" "\<forall>j. sh j = Fin 0"
  shows "accumulate_w bsx sh ws t = (Fin 0, Fin 0)"
  using assms
  by (simp add: accumulate_w_def neighbours_w_def neighbour_w_def case_prod_beta Let_def)

text \<open>
  Claim C6, as stated: given non-negative input depths, the final output of a hole is zero
  or strictly positive. For the image of 2 x 1 pixels with the depth \<open>2 ^ 100\<close> in the first
  pixel and a hole in the second, and the scaling factor \<open>2 ^ 100\<close>, the scaled depth of the
  first pixel overflows to \<open>+\<infinity>\<close>. The thread of the hole reads it as its left neighbour,
  with a positive weight, and reads it again from the row of cells above, where the bounds
  test gives the weight 0 and the product \<open>0 * \<infinity>\<close> makes the sum \<open>NaN\<close>. The hole is
  overwritten, since its weight is positive, and its final output is \<open>NaN\<close>.
\<close>

theorem positive_weight_counterexample:
  "is_finite big_depth \<and> is_nonneg (tex_big 0 0) \<and> is_nonneg (tex_big 1 0) \<and>
   kIsPixelToInpaint tex_big 1 0 \<and> depth_input big_depth tex_big 1 0 = Fin 0 \<and>
   \<not> isl big_run \<and>
   depth_map_output (device_after (projr big_run)) (0, 1) = NaN \<and>
   depth_map_output (device_after (projr big_run)) (0, 1) \<noteq> Fin 0 \<and>
   \<not> fgt (depth_map_output (device_after (projr big_run)) (0, 1)) (Fin 0)"
  by (simp add: big_run_result big_hole big_input)
     (simp add: tex_big_def big_depth_def is_finite_def is_nonneg_def)

text \<open>
  Claim C6, amended: in a sub-iteration of either kernel, the cell of a hole is overwritten
  with the candidate \<open>result / weight\<close> only when the accumulated weight is greater than
  zero, and keeps its value otherwise. The unweighted kernel tests the weight itself; the
  kernel with weighting tests the candidate, which, its weights being non-negative (as they
  are when loaded and after every sub-iteration), is greater than zero only when the weight
  is. Consequently, for an image of positive size whose input depths are finite and
  non-negative and a finite scaling factor, every hole inside the image has the scaled
  input 0, and when the call returns its final output is not negative: it is zero, positive
  (\<open>+\<infinity>\<close> included) or \<open>NaN\<close>.
\<close>

theorem overwrite_needs_positive_weight:
  "(t \<in> set (block_threads bsx bsy) \<longrightarrow>
      fst (sub_iteration_u bsx bsy chk tex thr w h origin b i (sh, fl)) (shared_mem_index bsx t) =
        (if kIsPixelToInpaint tex (fst (pixel_u w h origin t)) (snd (pixel_u w h origin t)) \<and>
            fgt (snd (accumulate_u bsx bsy tex w h origin sh t)) (Fin 0)
         then fdiv (fst (accumulate_u bsx bsy tex w h origin sh t))
                (snd (accumulate_u bsx bsy tex w h origin sh t))
         else sh (shared_mem_index bsx t))) \<and>
   weights_ok (load_weights bsx g w h origin buffer (block_threads bsx bsy)) \<and>
   (weights_ok ws \<longrightarrow>
      weights_ok (fst (snd (sub_iteration_w bsx bsy chk tex g thr w h origin b i (sh, ws, fl))))) \<and>
   (t \<in> set (block_threads bsx bsy) \<and> weights_ok ws \<longrightarrow>
      fst (sub_iteration_w bsx bsy chk tex g thr w h origin b i (sh, ws, fl)) (shared_mem_index bsx t) =
        (if kIsPixelToInpaint tex (fst (pixel_w w h origin t)) (snd (pixel_w w h origin t)) \<and>
            fgt (snd (accumulate_w bsx sh ws t)) (Fin 0) \<and>
            fgt (new_depth_w bsx bsy tex w h origin sh ws t) (Fin 0)
         then fdiv (fst (accumulate_w bsx sh ws t)) (snd (accumulate_w bsx sh ws t))
         else sh (shared_mem_index bsx t))) \<and>
   (0 < w \<and> w \<le> 2147483647 \<and> 0 < h \<and> h \<le> 2147483647 \<and> is_finite s \<and>
    (\<forall>x y. 0 \<le> x \<and> x < w \<and> 0 \<le> y \<and> y < h \<longrightarrow> is_nonneg (tex x y)) \<and>
    0 \<le> x \<and> x < w \<and> 0 \<le> y \<and> y < h \<and> kIsPixelToInpaint tex x y \<and>
    InpaintDepthMapWithConvolutionCUDA uw m thr s g tex w h dev cpu0 = Inr r \<longrightarrow>
      depth_input s tex x y = Fin 0 \<and>
      not_negative (depth_map_output (device_after r) (y, x)))"
proof (intro conjI impI)
  assume "t \<in> set (block_threads bsx bsy)"
  then show "fst (sub_iteration_u bsx bsy chk tex thr w h origin b i (sh, fl)) (shared_mem_index bsx t) =
        (if kIsPixelToInpaint tex (fst (pixel_u w h origin t)) (snd (pixel_u w h origin t)) \<and>
            fgt (snd (accumulate_u bsx bsy tex w h origin sh t)) (Fin 0)
         then fdiv (fst (accumulate_u bsx bsy tex w h origin sh t))
                (snd (accumulate_u bsx bsy tex w h origin sh t))
         else sh (shared_mem_index bsx t))"
    by (rule sub_iteration_u_cell)
next
  show "weights_ok (load_weights bsx g w h origin buffer (block_threads bsx bsy))"
    by (rule weights_ok_load)
next
  assume "weights_ok ws"
  then show "weights_ok (fst (snd (sub_iteration_w bsx bsy chk tex g thr w h origin b i (sh, ws, fl))))"
    by (rule weights_ok_step)
next
  assume a: "t \<in> set (block_threads bsx bsy) \<and> weights_ok ws"
  then have "fst (sub_iteration_w bsx bsy chk tex g thr w h origin b i (sh, ws, fl))
           (shared_mem_index bsx t) =
         (if kIsPixelToInpaint tex (fst (pixel_w w h origin t)) (snd (pixel_w w h origin t)) \<and>
             fgt (new_depth_w bsx bsy tex w h origin sh ws t) (Fin 0)
          then new_depth_w bsx bsy tex w h origin sh ws t
          else sh (shared_mem_index bsx t))"
    by (simp add: sub_iteration_w_cell)
  with a new_depth_w_weight [of ws bsx bsy tex w h origin sh t]
  show "fst (sub_iteration_w bsx bsy chk tex g thr w h origin b i (sh, ws, fl)) (shared_mem_index bsx t) =
        (if kIsPixelToInpaint tex (fst (pixel_w w h origin t)) (snd (pixel_w w h origin t)) \<and>
            fgt (snd (accumulate_w bsx sh ws t)) (Fin 0) \<and>
            fgt (new_depth_w bsx bsy tex w h origin sh ws t) (Fin 0)
         then fdiv (fst (accumulate_w bsx sh ws t)) (snd (accumulate_w bsx sh ws t))
         else sh (shared_mem_index bsx t))"
    by auto
next
  assume a: "0 < w \<and> w \<le> 2147483647 \<and> 0 < h \<and> h \<le> 2147483647 \<and> is_finite s \<and>
    (\<forall>x y. 0 \<le> x \<and> x < w \<and> 0 \<le> y \<and> y < h \<longrightarrow> is_nonneg (tex x y)) \<and>
    0 \<le> x \<and> x < w \<and> 0 \<le> y \<and> y < h \<and> kIsPixelToInpaint tex x y \<and>
    InpaintDepthMapWithConvolutionCUDA uw m thr s g tex w h dev cpu0 = Inr r"
  then have "is_finite s" "is_nonneg (tex x y)" "kIsPixelToInpaint tex x y" by simp_all
  then show "depth_input s tex x y = Fin 0"
    by (rule hole_input_zero)
next
  assume a: "0 < w \<and> w \<le> 2147483647 \<and> 0 < h \<and> h \<le> 2147483647 \<and> is_finite s \<and>
    (\<forall>x y. 0 \<le> x \<and> x < w \<and> 0 \<le> y \<and> y < h \<longrightarrow> is_nonneg (tex x y)) \<and>
    0 \<le> x \<and> x < w \<and> 0 \<le> y \<and> y < h \<and> kIsPixelToInpaint tex x y \<and>
    InpaintDepthMapWithConvolutionCUDA uw m thr s g tex w h dev cpu0 = Inr r"
  then have "holes_not_negative tex w h (depth_map_output (device_after r))"
    by (intro inpaint_ok [of w h s tex uw m thr g dev cpu0 r]) simp_all
  with a show "not_negative (depth_map_output (device_after r) (y, x))"
    by (simp add: holes_not_negative_def)
qed

text \<open>
  On the row image, in the first sub-iteration of the first block the hole next to the
  depth 10 is overwritten with 10 and the hole after it, whose weight is 0, keeps its value;
  with a budget of 4 the final output of the first hole is 10.
\<close>

theorem overwrite_needs_positive_weight_witness:
  "fst (sub_iteration_u 32 32 True tex_row (Fin (1 / 100)) 48 1 (0, 0) 0 0
          (row_shared 0, max_change row_start)) (shared_mem_index 32 (5, 4)) = Fin 10 \<and>
   row_shared 0 (shared_mem_index 32 (5, 4)) = Fin 0 \<and>
   fst (sub_iteration_u 32 32 True tex_row (Fin (1 / 100)) 48 1 (0, 0) 0 0
          (row_shared 0, max_change row_start)) (shared_mem_index 32 (6, 4)) = Fin 0 \<and>
   fst (sub_iteration_w 32 32 True tex_zero grad_zero (Fin (1 / 100)) 1 1 (0, 0) 0 0
          (shared_zero, shared_zero, max_change dev_zero)) (shared_mem_index 32 (4, 4)) = Fin 0 \<and>
   depth_input (Fin 1) tex_row 1 0 = Fin 0 \<and>
   \<not> isl row_run_short \<and>
   not_negative (depth_map_output (device_after (projr row_run_short)) (0, 1)) \<and>
   depth_map_output (device_after (projr row_run_short)) (0, 1) = Fin 10"
proof -
  have z: "\<forall>j. shared_zero j = Fin 0" by (simp add: shared_zero_def)
  have w: "weights_ok shared_zero" by (simp add: weights_ok_def shared_zero_def is_nonneg_def)
  have t: "(5, 4) \<in> set (block_threads 32 32)" "(6, 4) \<in> set (block_threads 32 32)"
    "(4, 4) \<in> set (block_threads 32 32)"
    by (simp_all add: block_threads_iff)
  have n: "\<forall>x y. 0 \<le> x \<and> x < 48 \<and> 0 \<le> y \<and> y < 1 \<longrightarrow> is_nonneg (tex_row x y)"
    by (simp add: tex_row_def is_nonneg_def)
  have k: "kIsPixelToInpaint tex_row 1 0" by (simp add: row_hole)
  have f: "is_finite (Fin 1)" by (simp add: is_finite_def)
  have i: "\<not> isl row_run_short"
    and o: "depth_map_output (device_after (projr row_run_short)) (0, 1) = Fin 10"
    using row_run_short_result [of 1] by simp_all
  from i have e: "row_run_short = Inr (projr row_run_short)" by (cases row_run_short) simp_all
  have c0: "row_shared 0 (shared_mem_index 32 (5, 4)) = Fin 0"
    "row_shared 0 (shared_mem_index 32 (6, 4)) = Fin 0"
    using row_cell [of 0 5] row_cell [of 0 6] by (simp_all add: shared_mem_index_def)
  have p: "pixel_u 48 1 (0, 0) (5, 4) = (1, 0)" "pixel_u 48 1 (0, 0) (6, 4) = (2, 0)"
    using pixel_u_row(1) [OF t(1)] pixel_u_row(1) [OF t(2)] by simp_all
  note c = overwrite_needs_positive_weight [of "(5, 4)" 32 32 True tex_row "Fin (1 / 100)" 48 1
      "(0, 0)" 0 0 "row_shared 0" "max_change row_start" grad_zero "depth_map_output dev_zero"
      shared_zero "Fin 1" 1 0 False 4 dev_zero cpu_zero "projr row_run_short",
      folded row_run_short_def]
  note c' = overwrite_needs_positive_weight [of "(6, 4)" 32 32 True tex_row "Fin (1 / 100)" 48 1
      "(0, 0)" 0 0 "row_shared 0" "max_change row_start" grad_zero "depth_map_output dev_zero"
      shared_zero "Fin 1" 1 0 False 4 dev_zero cpu_zero "projr row_run_short",
      folded row_run_short_def]
  note c'' = overwrite_needs_positive_weight [of "(4, 4)" 32 32 True tex_zero "Fin (1 / 100)" 1 1
      "(0, 0)" 0 0 shared_zero "max_change dev_zero" grad_zero "depth_map_output dev_zero"
      shared_zero "Fin 1" 1 0 False 4 dev_zero cpu_zero "projr row_run_short"]
  from c t(1) have 1: "fst (sub_iteration_u 32 32 True tex_row (Fin (1 / 100)) 48 1 (0, 0) 0 0
          (row_shared 0, max_change row_start)) (shared_mem_index 32 (5, 4)) = Fin 10"
    by (simp add: p row_hole row_candidate)
  from c' t(2) have 2: "fst (sub_iteration_u 32 32 True tex_row (Fin (1 / 100)) 48 1 (0, 0) 0 0
          (row_shared 0, max_change row_start)) (shared_mem_index 32 (6, 4)) = Fin 0"
    by (simp add: p row_hole row_candidate c0)
  from c'' t(3) w z have 3: "fst (sub_iteration_w 32 32 True tex_zero grad_zero (Fin (1 / 100)) 1 1
          (0, 0) 0 0 (shared_zero, shared_zero, max_change dev_zero)) (shared_mem_index 32 (4, 4)) = Fin 0"
    by (simp add: accumulate_w_zero shared_zero_def)
  from c n k f e have 4: "depth_input (Fin 1) tex_row 1 0 = Fin 0"
    and 5: "not_negative (depth_map_output (device_after (projr row_run_short)) (0, 1))"
    by simp_all
  from 1 c0(1) 2 3 4 i 5 o show ?thesis by simp
qed

section \<open>The schedule of the convergence checks\<close>

text \<open>The return after the first launch.\<close>

lemma loop_return_4:
  assumes "inpaint_iterations launch m n 0 (- 9999) dev [] = Inr res" "0 < m"
  shows "fst res = 4 \<longleftrightarrow> m \<le> 4 \<or> (\<forall>j<n. max_change (launch True n dev) j = 0)"
proof (cases "\<forall>j<n. max_change (launch True n dev) j = 0")
  case True
  have "inpaint_iterations launch m n 0 (- 9999) dev [] =
      Inr (4, launch True n dev, [launch_entry launch n 0 (- 9999) dev])"
    using assms(2) True by (rule loop_first_converged)
  with assms(1) have "res = (4, launch True n dev, [launch_entry launch n 0 (- 9999) dev])"
    by simp
  with True show ?thesis by simp
next
  case False
  with assms have l: "inpaint_iterations launch m n 4 0 (launch True n dev)
      [launch_entry launch n 0 (- 9999) dev] = Inr res"
    by (simp add: loop_continue_checked int_ok_def)
  show ?thesis
  proof (cases "m \<le> 4")
    case True
    with l have "res = (4, launch True n dev, [launch_entry launch n 0 (- 9999) dev])"
      by (simp add: loop_exit)
    with True show ?thesis by simp
  next
    case m: False
    have "8 \<le> fst res"
      using l
    proof (rule loop_cases)
      assume "\<not> 4 < m"
      with m show ?thesis by simp
    next
      assume "25 \<le> (4 :: int) - 0"
      then show ?thesis by simp
    next
      assume "25 \<le> (4 :: int) - 0"
      then show ?thesis by simp
    next
      assume "inpaint_iterations launch m n (4 + 4) 0 (launch False n (launch True n dev))
           ([launch_entry launch n 0 (- 9999) dev] @
            [launch_entry launch n 4 0 (launch True n dev)]) = Inr res"
      from loop_return_bound [OF this] show ?thesis by simp
    qed
    with m False show ?thesis by simp
  qed
qed

text \<open>
  Claim C10: a call launches a diffusion kernel exactly when a tile is active and the budget
  is positive. The launch number \<open>k\<close> is at iteration \<open>4 * k\<close>; the first launch, at
  iteration 0, checks convergence, and a launch checks convergence exactly when its
  iteration is a multiple of 28. After the first launch the call returns 4 exactly when the
  budget is at most 4 or no change of a pixel in the final sub-iteration of that launch
  exceeds the threshold. In particular, if a tile is active, the budget is positive and no
  change of the first launch exceeds the threshold, the call returns, and it returns 4,
  whether or not holes remain.
\<close>

theorem convergence_check_schedule:
  "(InpaintDepthMapWithConvolutionCUDA uw m thr s g tex w h dev cpu0 = Inr r \<longrightarrow>
      (launches r \<noteq> [] \<longleftrightarrow>
         active_block_count (snd (initialize s tex w h dev cpu0)) \<noteq> 0 \<and> 0 < m) \<and>
      (launches r \<noteq> [] \<longrightarrow>
         lr_iteration (hd (launches r)) = 0 \<and> lr_check_convergence (hd (launches r))) \<and>
      list_all (\<lambda>e. lr_check_convergence e = (lr_iteration e mod 28 = 0)) (launches r) \<and>
      (\<forall>k<length (launches r). lr_iteration (launches r ! k) = 4 * int k) \<and>
      (launches r \<noteq> [] \<longrightarrow>
         (iterations_returned r = 4 \<longleftrightarrow>
            m \<le> 4 \<or>
            no_change_exceeds uw tex g thr w h
              (active_block_count (snd (initialize s tex w h dev cpu0)))
              (first_launch_device s tex w h dev cpu0)))) \<and>
   (active_block_count (snd (initialize s tex w h dev cpu0)) \<noteq> 0 \<and> 0 < m \<and>
    no_change_exceeds uw tex g thr w h (active_block_count (snd (initialize s tex w h dev cpu0)))
      (first_launch_device s tex w h dev cpu0) \<longrightarrow>
      (\<exists>r'. InpaintDepthMapWithConvolutionCUDA uw m thr s g tex w h dev cpu0 = Inr r' \<and>
         iterations_returned r' = 4 \<and> length (launches r') = 1))"
proof -
  let ?c = "snd (initialize s tex w h dev cpu0)"
  let ?n = "active_block_count ?c"
  let ?dev = "upload_tiles ?c (fst (initialize s tex w h dev cpu0))"
  let ?launch = "launch_diffusion uw tex g thr w h"
  let ?R = "InpaintDepthMapWithConvolutionCUDA uw m thr s g tex w h dev cpu0"
  let ?quiet = "no_change_exceeds uw tex g thr w h ?n (first_launch_device s tex w h dev cpu0)"
  have flags: "(\<forall>j<?n. max_change (?launch True ?n ?dev) j = 0) \<longleftrightarrow> ?quiet"
    unfolding first_launch_device_def by (rule launch_flags_zero)
  have a: "(launches r \<noteq> [] \<longleftrightarrow> ?n \<noteq> 0 \<and> 0 < m) \<and>
      (launches r \<noteq> [] \<longrightarrow>
         lr_iteration (hd (launches r)) = 0 \<and> lr_check_convergence (hd (launches r))) \<and>
      list_all (\<lambda>e. lr_check_convergence e = (lr_iteration e mod 28 = 0)) (launches r) \<and>
      (\<forall>k<length (launches r). lr_iteration (launches r ! k) = 4 * int k) \<and>
      (launches r \<noteq> [] \<longrightarrow> (iterations_returned r = 4 \<longleftrightarrow> m \<le> 4 \<or> ?quiet))"
    if "?R = Inr r"
    using that
  proof (rule run_cases)
    assume "?n = 0" "r = \<lparr>iterations_returned = 0, pixel_count = pixel_to_inpaint_count ?c,
        device_after = fst (initialize s tex w h dev cpu0), launches = []\<rparr>"
    then show ?thesis by simp
  next
    fix res
    assume n: "?n \<noteq> 0"
      and l: "inpaint_iterations ?launch m ?n 0 (- 9999) ?dev [] = Inr res"
      and r: "r = \<lparr>iterations_returned = fst res, pixel_count = pixel_to_inpaint_count ?c,
               device_after = fst (snd res), launches = snd (snd res)\<rparr>"
    have first: "\<exists>tr'. snd (snd res) = launch_entry ?launch ?n 0 (- 9999) ?dev # tr'" if "0 < m"
      using that l by (rule loop_first_launch)
    have none: "snd (snd res) = []" if "\<not> 0 < m"
      using that l by (auto simp: loop_exit)
    have 1: "launches r \<noteq> [] \<longleftrightarrow> ?n \<noteq> 0 \<and> 0 < m"
      using first none n r by auto
    have 2: "lr_iteration (hd (launches r)) = 0 \<and> lr_check_convergence (hd (launches r))"
      if "launches r \<noteq> []"
      using that 1 first r by (auto simp: launch_entry_def)
    have 3: "list_all (\<lambda>e. lr_check_convergence e = (lr_iteration e mod 28 = 0)) (launches r)"
      using loop_schedule [OF l] r by simp
    have 4: "\<forall>k<length (launches r). lr_iteration (launches r ! k) = 4 * int k"
      using loop_iteration_numbers [OF l] r by simp
    have 5: "iterations_returned r = 4 \<longleftrightarrow> m \<le> 4 \<or> ?quiet" if "launches r \<noteq> []"
    proof -
      from that 1 have "0 < m" by simp
      from loop_return_4 [OF l this] flags r show ?thesis by simp
    qed
    from 1 2 3 4 5 show ?thesis by blast
  qed
  have b: "\<exists>r'. ?R = Inr r' \<and> iterations_returned r' = 4 \<and> length (launches r') = 1"
    if "?n \<noteq> 0 \<and> 0 < m \<and> ?quiet"
  proof -
    from that flags have z: "\<forall>j<?n. max_change (?launch True ?n ?dev) j = 0" by simp
    from that have "0 < m" by simp
    then have "inpaint_iterations ?launch m ?n 0 (- 9999) ?dev [] =
        Inr (4, ?launch True ?n ?dev, [launch_entry ?launch ?n 0 (- 9999) ?dev])"
      using z by (rule loop_first_converged)
    with that show ?thesis by (simp add: run_loop)
  qed
  from a b show ?thesis by blast
qed

text \<open>
  On the row image with a budget of 32 the first launch sets a flag, so the call goes on:
  it makes eight launches, of which the first (iteration 0) and the last (iteration 28)
  check convergence, and returns 32. On the image of one hole no change exceeds the
  threshold, and the call returns 4 after one launch.
\<close>

theorem convergence_check_schedule_witness:
  "\<not> isl row_run_long \<and>
   length (launches (projr row_run_long)) = 8 \<and>
   lr_iteration (launches (projr row_run_long) ! 0) = 0 \<and>
   lr_check_convergence (launches (projr row_run_long) ! 0) \<and>
   lr_iteration (launches (projr row_run_long) ! 1) = 4 \<and>
   \<not> lr_check_convergence (launches (projr row_run_long) ! 1) \<and>
   lr_iteration (launches (projr row_run_long) ! 7) = 28 \<and>
   lr_check_convergence (launches (projr row_run_long) ! 7) \<and>
   iterations_returned (projr row_run_long) \<noteq> 4 \<and>
   \<not> isl all_holes_run \<and>
   iterations_returned (projr all_holes_run) = 4 \<and>
   length (launches (projr all_holes_run)) = 1 \<and>
   depth_map_output (device_after (projr all_holes_run)) (0, 0) = Fin 0"
proof -
  let ?L = "launches (projr row_run_long)"
  have n: "active_block_count (snd (initialize (Fin 1) tex_row 48 1 dev_zero cpu_zero)) = 2"
    using row_compaction by (simp add: row_init_def)
  have d: "first_launch_device (Fin 1) tex_row 48 1 dev_zero cpu_zero = row_start"
    by (simp add: first_launch_device_def row_start_def row_init_def)
  have loud: "\<not> no_change_exceeds False tex_row grad_zero (Fin (1 / 100)) 48 1 2 row_start"
    using row_flags_set [of grad_zero] by (simp add: launch_flags_zero)
  have i: "\<not> isl row_run_long" and len: "length ?L = 8"
    using row_run_long_result by simp_all
  from i have e: "row_run_long = Inr (projr row_run_long)" by (cases row_run_long) simp_all
  note c = convergence_check_schedule [of False 32 "Fin (1 / 100)" "Fin 1" grad_zero tex_row 48 1
      dev_zero cpu_zero "projr row_run_long", folded row_run_long_def, unfolded n d]
  from c e len have ne: "?L \<noteq> []" by auto
  from c e have it: "\<forall>k<length ?L. lr_iteration (?L ! k) = 4 * int k"
    and sch: "list_all (\<lambda>e. lr_check_convergence e = (lr_iteration e mod 28 = 0)) ?L"
    by blast+
  from it len have it0: "lr_iteration (?L ! 0) = 0" and it1: "lr_iteration (?L ! 1) = 4"
    and it7: "lr_iteration (?L ! 7) = 28"
    by simp_all
  from sch len have ch: "lr_check_convergence (?L ! k) = (lr_iteration (?L ! k) mod 28 = 0)"
    if "k < 8" for k
    using that by (simp add: list_all_length)
  from c e ne loud have ret: "iterations_returned (projr row_run_long) \<noteq> 4" by simp
  have m: "active_block_count (snd (initialize (Fin 1) tex_zero 1 1 dev_zero cpu_zero)) = 1"
    by (rule all_holes_active)
  have quiet: "no_change_exceeds False tex_zero grad_zero (Fin (1 / 100)) 1 1 1
      (first_launch_device (Fin 1) tex_zero 1 1 dev_zero cpu_zero)"
    using all_holes_first_launch [of "(0, 0)"]
    by (simp add: launch_flags_zero [symmetric] first_launch_device_def)
  note c' = convergence_check_schedule [of False 100 "Fin (1 / 100)" "Fin 1" grad_zero tex_zero 1 1
      dev_zero cpu_zero, folded all_holes_run_def, unfolded m]
  from c' quiet obtain r' where r': "all_holes_run = Inr r'"
    and q: "iterations_returned r' = 4" "length (launches r') = 1"
    by auto
  have h: "\<not> isl all_holes_run" "iterations_returned (projr all_holes_run) = 4"
    "length (launches (projr all_holes_run)) = 1"
    unfolding r' using q by simp_all
  from i len it0 it1 it7 ch [of 0] ch [of 1] ch [of 7] ret h all_holes_result
  show ?thesis by simp
qed

section \<open>The active tiles across a run\<close>

text \<open>
  Claim C1 says that a convergence check drops the tiles whose flag is not set and that the
  later launches run over the remaining tiles only. The host loop only counts the set
  flags: on the row image the first launch checks convergence over the tiles \<open>(0, 0)\<close> and
  \<open>(24, 0)\<close> and reads the flags \<open>[1, 0]\<close>, and the second launch still runs over both
  tiles.
\<close>

theorem active_list_shrink_counterexample:
  "\<not> isl row_run \<and>
   length (launches (projr row_run)) = 2 \<and>
   lr_check_convergence (launches (projr row_run) ! 0) \<and>
   lr_tiles (launches (projr row_run) ! 0) = [(0, 0), (24, 0)] \<and>
   lr_max_change_cpu (launches (projr row_run) ! 0) = [1, 0] \<and>
   lr_grid_dim_active (launches (projr row_run) ! 1) = 2 \<and>
   lr_tiles (launches (projr row_run) ! 1) = [(0, 0), (24, 0)]"
  by (simp add: row_run_launches launch_entry_def row_first_launch row_start_tiles)

text \<open>
  Claim C1, amended: in a call that returns, every diffusion launch runs over the whole list
  of tiles that the compaction produced, so the size of the list of active tiles is the
  same at every convergence check, hence non-increasing. A convergence check only counts
  the set flags: a launch that checks convergence and downloads no set flag is the last
  launch, and the call returns four more than its iteration; after any other launch whose
  iteration plus four is below the budget there is a further launch.
\<close>

theorem active_list_constant:
  "InpaintDepthMapWithConvolutionCUDA uw m thr s g tex w h dev cpu0 = Inr r \<longrightarrow>
   list_all (\<lambda>e. lr_grid_dim_active e = active_block_count (snd (initialize s tex w h dev cpu0)) \<and>
                  lr_tiles e = active_tiles (active_block_count (snd (initialize s tex w h dev cpu0)))
                                 (block_coordinates_cpu (snd (initialize s tex w h dev cpu0))))
     (launches r) \<and>
   (\<forall>k<length (launches r). converged_entry (launches r ! k) \<longrightarrow>
      Suc k = length (launches r) \<and>
      iterations_returned r = lr_iteration (launches r ! k) + 4) \<and>
   (\<forall>k<length (launches r).
      \<not> converged_entry (launches r ! k) \<and> lr_iteration (launches r ! k) + 4 < m \<longrightarrow>
      Suc k < length (launches r))"
proof
  let ?c = "snd (initialize s tex w h dev cpu0)"
  let ?n = "active_block_count ?c"
  let ?dev = "upload_tiles ?c (fst (initialize s tex w h dev cpu0))"
  let ?launch = "launch_diffusion uw tex g thr w h"
  assume "InpaintDepthMapWithConvolutionCUDA uw m thr s g tex w h dev cpu0 = Inr r"
  then show "list_all (\<lambda>e. lr_grid_dim_active e = ?n \<and>
                  lr_tiles e = active_tiles ?n (block_coordinates_cpu ?c)) (launches r) \<and>
   (\<forall>k<length (launches r). converged_entry (launches r ! k) \<longrightarrow>
      Suc k = length (launches r) \<and>
      iterations_returned r = lr_iteration (launches r ! k) + 4) \<and>
   (\<forall>k<length (launches r).
      \<not> converged_entry (launches r ! k) \<and> lr_iteration (launches r ! k) + 4 < m \<longrightarrow>
      Suc k < length (launches r))"
  proof (rule run_cases)
    assume "r = \<lparr>iterations_returned = 0, pixel_count = pixel_to_inpaint_count ?c,
        device_after = fst (initialize s tex w h dev cpu0), launches = []\<rparr>"
    then show ?thesis by simp
  next
    fix res
    assume l: "inpaint_iterations ?launch m ?n 0 (- 9999) ?dev [] = Inr res"
      and r: "r = \<lparr>iterations_returned = fst res, pixel_count = pixel_to_inpaint_count ?c,
               device_after = fst (snd res), launches = snd (snd res)\<rparr>"
    have "list_all (\<lambda>e. lr_grid_dim_active e = ?n \<and>
        lr_tiles e = active_tiles ?n (block_coordinates ?dev)) (snd (snd res))"
      by (rule loop_same_tiles [OF _ l]) simp
    then have 1: "list_all (\<lambda>e. lr_grid_dim_active e = ?n \<and>
        lr_tiles e = active_tiles ?n (block_coordinates_cpu ?c)) (launches r)"
      using r by (simp add: upload_tiles_active)
    from loop_control [OF l] r
    have 2: "(\<forall>k<length (launches r). converged_entry (launches r ! k) \<longrightarrow>
        Suc k = length (launches r) \<and>
        iterations_returned r = lr_iteration (launches r ! k) + 4) \<and>
      (\<forall>k<length (launches r).
        \<not> converged_entry (launches r ! k) \<and> lr_iteration (launches r ! k) + 4 < m \<longrightarrow>
        Suc k < length (launches r))"
      by simp
    from 1 2 show ?thesis by simp
  qed
qed

text \<open>
  On the image of one hole the only launch downloads no set flag and the call returns 4; on
  the row image with a budget of 32 the first launch downloads a set flag and a second
  launch follows, over the same two tiles.
\<close>

theorem active_list_constant_witness:
  "\<not> isl all_holes_run \<and>
   length (launches (projr all_holes_run)) = 1 \<and>
   lr_check_convergence (launches (projr all_holes_run) ! 0) \<and>
   lr_max_change_cpu (launches (projr all_holes_run) ! 0) = [0] \<and>
   iterations_returned (projr all_holes_run) = lr_iteration (launches (projr all_holes_run) ! 0) + 4 \<and>
   \<not> isl row_run_long \<and>
   lr_check_convergence (launches (projr row_run_long) ! 0) \<and>
   lr_max_change_cpu (launches (projr row_run_long) ! 0) = [1, 0] \<and>
   1 < length (launches (projr row_run_long)) \<and>
   lr_grid_dim_active (launches (projr row_run_long) ! 1) = 2 \<and>
   lr_tiles (launches (projr row_run_long) ! 1) = [(0, 0), (24, 0)]"
proof -
  let ?A = "launches (projr all_holes_run)"
  let ?L = "launches (projr row_run_long)"
  have ia: "\<not> isl all_holes_run" and la: "length ?A = 1"
    using all_holes_result by simp_all
  from ia have ea: "all_holes_run = Inr (projr all_holes_run)" by (cases all_holes_run) simp_all
  have a0: "?A ! 0 = launch_entry (launch_diffusion False tex_zero grad_zero (Fin (1 / 100)) 1 1) 1 0
      (- 9999) (first_launch_device (Fin 1) tex_zero 1 1 dev_zero cpu_zero)"
    by (simp add: all_holes_run_def run_loop_count [OF all_holes_active _ all_holes_loop]
        first_launch_device_def)
  have fa: "lr_check_convergence (?A ! 0)" "lr_max_change_cpu (?A ! 0) = [0]"
    using all_holes_first_launch [of "(0, 0)"]
    by (simp_all add: a0 launch_entry_def first_launch_device_def)
  then have ca: "converged_entry (?A ! 0)" by (simp add: converged_entry_def)
  note c = active_list_constant [of False 100 "Fin (1 / 100)" "Fin 1" grad_zero tex_zero 1 1
      dev_zero cpu_zero "projr all_holes_run", folded all_holes_run_def]
  from c ea la ca
  have ra: "iterations_returned (projr all_holes_run) = lr_iteration (?A ! 0) + 4" by simp
  have n: "active_block_count (snd (initialize (Fin 1) tex_row 48 1 dev_zero cpu_zero)) = 2"
    and t: "active_tiles 2 (block_coordinates_cpu (snd (initialize (Fin 1) tex_row 48 1 dev_zero
        cpu_zero))) = [(0, 0), (24, 0)]"
    using row_compaction by (simp_all add: row_init_def)
  have i: "\<not> isl row_run_long" and len: "length ?L = 8"
    using row_run_long_result by simp_all
  from i have e: "row_run_long = Inr (projr row_run_long)" by (cases row_run_long) simp_all
  note c' = active_list_constant [of False 32 "Fin (1 / 100)" "Fin 1" grad_zero tex_row 48 1
      dev_zero cpu_zero "projr row_run_long", folded row_run_long_def, unfolded n t]
  from c' e have tiles: "list_all (\<lambda>e. lr_grid_dim_active e = 2 \<and> lr_tiles e = [(0, 0), (24, 0)]) ?L"
    by blast
  with len have t1: "lr_grid_dim_active (?L ! 1) = 2" "lr_tiles (?L ! 1) = [(0, 0), (24, 0)]"
    by (simp_all add: list_all_length)
  have l0: "?L ! 0 = launch_entry (launch_diffusion False tex_row grad_zero (Fin (1 / 100)) 48 1) 2 0
      (- 9999) row_start"
    using row_run_long_result by simp
  have f0: "lr_check_convergence (?L ! 0)" "lr_max_change_cpu (?L ! 0) = [1, 0]"
    by (simp_all add: l0 launch_entry_def row_first_launch)
  from ia la fa ra i f0 len t1 show ?thesis by simp
qed

section \<open>The division of the convergence test\<close>

text \<open>
  Claim C8: the convergence test of the unweighted kernel divides by the cached value
  without a guard, and a call can reach it with the divisor zero. In the first launch on
  the row image, the thread \<open>(8, 4)\<close> of the first block serves the hole at pixel
  \<open>(4, 0)\<close>; after three sub-iterations its cell still holds 0, its candidate in the
  fourth, checked sub-iteration is 10, and its change is \<open>(10 - 0) / 0\<close>, an infinity.
\<close>

theorem unguarded_division_reachable:
  "row_shared 3 = fst (fold (sub_iteration_u 32 32 True tex_row (Fin (1 / 100)) 48 1 (0, 0) 0)
       [0, 1, 2]
       (load_shared 32 (pixel_u 48 1 (0, 0)) (depth_map_output row_start) (block_threads 32 32),
        max_change row_start)) \<and>
   (8, 4) \<in> set (block_threads 32 32) \<and>
   pixel_u 48 1 (0, 0) (8, 4) = (4, 0) \<and>
   kOutput_u 32 32 48 1 (0, 0) (8, 4) \<and>
   kIsPixelToInpaint tex_row 4 0 \<and>
   row_shared 3 (shared_mem_index 32 (8, 4)) = Fin 0 \<and>
   new_depth_u 32 32 tex_row 48 1 (0, 0) (row_shared 3) (8, 4) = Fin 10 \<and>
   change_u 32 32 True tex_row 48 1 (0, 0) 3 (row_shared 3) (8, 4) =
     fabs (fdiv (fsub (Fin 10) (Fin 0)) (Fin 0)) \<and>
   change_u 32 32 True tex_row 48 1 (0, 0) 3 (row_shared 3) (8, 4) = PInf"
proof -
  have "map int [0..<3] = [0, 1, 2]" by (simp add: upt_rec)
  then have a: "row_shared 3 = fst (fold (sub_iteration_u 32 32 True tex_row (Fin (1 / 100)) 48 1 (0, 0) 0)
       [0, 1, 2]
       (load_shared 32 (pixel_u 48 1 (0, 0)) (depth_map_output row_start) (block_threads 32 32),
        max_change row_start))"
    by (simp add: row_shared_def row_state_def row_origins)
  have b: "(8, 4) \<in> set (block_threads 32 32)" by (simp add: block_threads_iff)
  have c: "kIsPixelToInpaint tex_row 4 0" by (simp add: row_hole)
  have "fabs (fdiv (fsub (Fin 10) (Fin 0)) (Fin 0)) = PInf"
    by (simp add: fsub_def signed_inf_def)
  then have d: "change_u 32 32 True tex_row 48 1 (0, 0) 3 (row_shared 3) (8, 4) =
     fabs (fdiv (fsub (Fin 10) (Fin 0)) (Fin 0))"
    by (simp only: row_thread_8(5))
  show ?thesis
    by (intro conjI) (rule a, rule b, rule row_thread_8(1), rule row_thread_8(2), rule c,
        rule row_thread_8(3), rule row_thread_8(4), rule d, rule row_thread_8(5))
qed

end
